theory Spec2Isabelle
  imports Complex_Main "HOL-Library.AList"
begin

section \<open>The eBay product scraper (app/services/ebay-scraper.server.ts)\<close>

text \<open>
  A shallow embedding of \<^verbatim>\<open>scrapeEbayProduct\<close> and its helpers
  \<^verbatim>\<open>formatEbayVariants\<close>, \<^verbatim>\<open>extractItemId\<close> and \<^verbatim>\<open>createScraperError\<close>.

  JavaScript strings are modelled as HOL strings whose characters stand for UTF-16 code
  units below 256 (the Latin-1 range); on these the string primitives below behave
  as the ECMAScript ones do. A JavaScript object used as a dictionary
  (\<^verbatim>\<open>Record<string, string>\<close>) is an association list with distinct keys, and
  writing a key is \<^const>\<open>AList.update\<close>: a new key goes to the end, a known key keeps
  its place. The properties below read only the keys and the values they map to, not
  their order. Numbers that are only passed through and tested for truthiness (the
  price) are reals: a number is falsy exactly when it is zero. Arrays hold the element
  types that the interface \<^verbatim>\<open>EbayApiResponse\<close> and the comment on
  \<^verbatim>\<open>formatEbayVariants\<close> give them: the values of an option are strings.
\<close>

subsection \<open>String primitives\<close>

text \<open>\<^verbatim>\<open>String.prototype.startsWith\<close>: the first argument begins with the second.\<close>

fun startsWith :: "string \<Rightarrow> string \<Rightarrow> bool" where
  "startsWith s [] = True"
| "startsWith [] (p # ps) = False"
| "startsWith (c # cs) (p # ps) = (c = p \<and> startsWith cs ps)"

text \<open>\<^verbatim>\<open>String.prototype.includes\<close>: the second argument occurs as a contiguous substring.\<close>

fun includes_str :: "string \<Rightarrow> string \<Rightarrow> bool" where
  "includes_str [] p = (p = [])"
| "includes_str (c # cs) p = (startsWith (c # cs) p \<or> includes_str cs p)"

text \<open>White space removed by \<^verbatim>\<open>trim\<close>: TAB, LF, VT, FF, CR, SPACE and NBSP.\<close>

definition is_ws :: "char \<Rightarrow> bool" where
  "is_ws c = (c \<in> {CHR 0x09, CHR 0x0A, CHR 0x0B, CHR 0x0C, CHR 0x0D, CHR 0x20, CHR 0xA0})"

definition trim :: "string \<Rightarrow> string" where
  "trim s = rev (dropWhile is_ws (rev (dropWhile is_ws s)))"

text \<open>
  \<^verbatim>\<open>toLowerCase\<close>: the letters A-Z and the Latin-1 capitals 0xC0-0xDE (without the
  multiplication sign 0xD7) move up by 32; every other code unit stays.
\<close>

definition lower_char :: "char \<Rightarrow> char" where
  "lower_char c =
     (let n = (of_char c :: nat)
      in if (65 \<le> n \<and> n \<le> 90) \<or> (192 \<le> n \<and> n \<le> 222 \<and> n \<noteq> 215)
         then char_of (n + 32) else c)"

definition toLowerCase :: "string \<Rightarrow> string" where
  "toLowerCase s = map lower_char s"

text \<open>The regular expression class \<^verbatim>\<open>\d\<close>: the ten ASCII digits.\<close>

definition is_digit :: "char \<Rightarrow> bool" where
  "is_digit c = (let n = (of_char c :: nat) in 48 \<le> n \<and> n \<le> 57)"

subsection \<open>Data model\<close>

text \<open>\<^verbatim>\<open>ProductOption\<close>: \<^verbatim>\<open>{ name, values }\<close>.\<close>

record ProductOption =
  po_name :: string
  po_values :: "string list"

text \<open>
  \<^verbatim>\<open>ProductVariant\<close>: \<^verbatim>\<open>{ itemId, options, available, price? }\<close>. The price is optional:
  the variant expander leaves it out, the final mapping of the scraper fills it in.
\<close>

record ProductVariant =
  pv_itemId :: string
  pv_options :: "(string \<times> string) list"
  pv_available :: bool
  pv_price :: "real option"

text \<open>
  One value of an entry of the raw options array, as in
  \<^verbatim>\<open>{ "Color": { "values": ["Black", "Pink"], "selectedValue": "" } }\<close>.
  \<^verbatim>\<open>od_values = None\<close> stands for a \<^verbatim>\<open>values\<close> field that is missing, falsy or not an
  array. An entry whose value is null or undefined is \<^verbatim>\<open>None\<close> in the entry list.
\<close>

record option_data =
  od_values :: "string list option"
  od_selectedValue :: "string option"

text \<open>A raw option object is the list of its entries, as \<^verbatim>\<open>Object.entries\<close> returns them.\<close>

type_synonym raw_option = "(string \<times> option_data option) list"

subsection \<open>The variant expander: formatEbayVariants\<close>

text \<open>
  The two arrays that the parsing loop pushes to. The elements of
  \<^verbatim>\<open>allOptionValues\<close> have the shape \<^verbatim>\<open>{ name, values }\<close> of a \<^verbatim>\<open>ProductOption\<close>.
\<close>

record parse_state =
  productOptions :: "ProductOption list"
  allOptionValues :: "ProductOption list"

text \<open>
  \<^verbatim>\<open>optionData.values.map(v => v.trim()).filter(v => !v.toLowerCase().includes("out of stock"))\<close>
\<close>

definition availableValues :: "string list \<Rightarrow> string list" where
  "availableValues vs =
     filter (\<lambda>v. \<not> includes_str (toLowerCase v) ''out of stock'') (map trim vs)"

text \<open>The body of the inner \<^verbatim>\<open>forEach\<close> over \<^verbatim>\<open>Object.entries(optionObj)\<close>.\<close>

definition parse_entry :: "string \<times> option_data option \<Rightarrow> parse_state \<Rightarrow> parse_state" where
  "parse_entry e st =
     (case e of (optionName, optionData) \<Rightarrow>
        (case optionData of
           None \<Rightarrow> st
         | Some d \<Rightarrow>
             (case od_values d of
                None \<Rightarrow> st
              | Some vs \<Rightarrow>
                  (let av = availableValues vs
                   in if length av > 0
                      then st\<lparr>productOptions :=
                                productOptions st @ [\<lparr>po_name = optionName, po_values = av\<rparr>],
                              allOptionValues :=
                                allOptionValues st @ [\<lparr>po_name = optionName, po_values = av\<rparr>]\<rparr>
                      else st))))"

text \<open>The outer \<^verbatim>\<open>options.forEach\<close>, started on two empty arrays.\<close>

definition parse_options :: "raw_option list \<Rightarrow> parse_state" where
  "parse_options opts =
     fold (\<lambda>optionObj st. fold parse_entry optionObj st) opts
       \<lparr>productOptions = [], allOptionValues = []\<rparr>"

text \<open>
  The recursive closure \<^verbatim>\<open>generateCombinations(optionIndex, currentOptions)\<close>. The array
  \<^verbatim>\<open>allOptionValues\<close> it closes over is the first argument, the array \<^verbatim>\<open>variants\<close> it
  pushes to is passed in and returned. The \<^verbatim>\<open>for ... of\<close> loop is a fold over the values.
\<close>

function generateCombinations ::
  "ProductOption list \<Rightarrow> nat \<Rightarrow> (string \<times> string) list \<Rightarrow> ProductVariant list
     \<Rightarrow> ProductVariant list" where
  "generateCombinations allv optionIndex currentOptions variants =
     (if optionIndex \<ge> length allv
      then variants @ [\<lparr>pv_itemId = '''', pv_options = currentOptions,
                        pv_available = True, pv_price = None\<rparr>]
      else
        (let currentOption = allv ! optionIndex
         in fold (\<lambda>value vs.
                    generateCombinations allv (optionIndex + 1)
                      (AList.update (po_name currentOption) value currentOptions) vs)
              (po_values currentOption) variants))"
  by pat_completeness auto
termination
  by (relation "measure (\<lambda>(allv, i, cur, vs). length allv - i)") auto

declare generateCombinations.simps [simp del]

record format_result =
  fr_options :: "ProductOption list"
  fr_variants :: "ProductVariant list"

definition formatEbayVariants :: "raw_option list \<Rightarrow> format_result" where
  "formatEbayVariants opts =
     (if length opts = 0 then \<lparr>fr_options = [], fr_variants = []\<rparr>
      else
        (let st = parse_options opts
         in if length (allOptionValues st) = 0
            then \<lparr>fr_options = [], fr_variants = []\<rparr>
            else \<lparr>fr_options = productOptions st,
                  fr_variants = generateCombinations (allOptionValues st) 0 [] []\<rparr>))"

subsection \<open>URL validation: extractItemId\<close>

text \<open>
  The regular expression \<^verbatim>\<open>/\/itm\/(\d+)/i\<close> matches at the start of a string: the five
  characters \<^verbatim>\<open>/itm/\<close> in any letter case, then at least one digit.
\<close>

definition itm_at :: "string \<Rightarrow> bool" where
  "itm_at s = (toLowerCase (take 5 s) = ''/itm/'' \<and> takeWhile is_digit (drop 5 s) \<noteq> [])"

text \<open>
  \<^verbatim>\<open>url.match(/\/itm\/(\d+)/i)\<close> takes the leftmost position where the expression
  matches; the captured group is the longest run of digits there. No match is \<^verbatim>\<open>null\<close>.
\<close>

fun extractItemId :: "string \<Rightarrow> string option" where
  "extractItemId [] = None"
| "extractItemId (c # cs) =
     (if itm_at (c # cs) then Some (takeWhile is_digit (drop 5 (c # cs)))
      else extractItemId cs)"

subsection \<open>Errors\<close>

datatype error_code = INVALID_URL | API_KEY_MISSING | API_ERROR

text \<open>
  What a \<^verbatim>\<open>throw\<close> inside the \<^verbatim>\<open>try\<close> block can carry: an \<^verbatim>\<open>Error\<close> made by
  \<^verbatim>\<open>createScraperError\<close> (message and code), an Axios error (with
  \<^verbatim>\<open>error.response?.data?.message\<close> and \<^verbatim>\<open>error.message\<close>), any other \<^verbatim>\<open>Error\<close>
  (its message), or a value that is not an \<^verbatim>\<open>Error\<close>.
\<close>

datatype thrown =
    ScraperError string error_code
  | AxiosError "string option" string
  | OtherError string
  | NonError

definition createScraperError :: "string \<Rightarrow> error_code \<Rightarrow> thrown" where
  "createScraperError message code = ScraperError message code"

subsection \<open>The remote response and the scraped product\<close>

record price_obj =
  p_value :: "real option"
  p_currency :: "string option"

text \<open>
  The fields of \<^verbatim>\<open>EbayApiResponse.body\<close> that the scraper reads for the product fields
  modelled below; each may be missing. \<^verbatim>\<open>b_other_keys\<close> counts the remaining own keys
  of the object, which only \<^verbatim>\<open>Object.keys(apiData).length\<close> looks at. The entries of
  \<^verbatim>\<open>productInformation\<close> and \<^verbatim>\<open>breadCrumbs\<close> are pairs (name, value) and (name, link).
\<close>

record api_body =
  b_title :: "string option"
  b_price :: "price_obj option"
  b_url :: "string option"
  b_mainImage :: "string option"
  b_images :: "string list option"
  b_options :: "raw_option list option"
  b_description :: "string option"
  b_productInformation :: "(string \<times> string) list option"
  b_breadCrumbs :: "(string \<times> string) list option"
  b_other_keys :: nat

record EbayApiResponse =
  original_status :: int
  pc_status :: int
  body :: "api_body option"

text \<open>
  \<^verbatim>\<open>ScrapedProduct\<close>. The fields \<^verbatim>\<open>rating\<close>, \<^verbatim>\<open>ratingsTotal\<close> and \<^verbatim>\<open>availability\<close> are
  left out: they are computed by \<^verbatim>\<open>parseFloat\<close>, \<^verbatim>\<open>parseInt\<close> and number formatting
  from fields that nothing else reads.
\<close>

record ScrapedProduct =
  sp_itemId :: string
  sp_title :: string
  sp_description :: string
  sp_price :: real
  sp_currency :: string
  sp_images :: "string list"
  sp_options :: "ProductOption list"
  sp_variants :: "ProductVariant list"
  sp_ebayUrl :: string
  sp_specifications :: "(string \<times> string) list option"
  sp_bulletPoints :: "string list option"
  sp_categories :: "string list"

text \<open>The returned object \<^verbatim>\<open>{ success: boolean; data?: ScrapedProduct; error?: string }\<close>.\<close>

record scrape_result =
  success :: bool
  data :: "ScrapedProduct option"
  error :: "string option"

subsection \<open>Truthiness\<close>

text \<open>A possibly missing string is truthy when it is present and not empty.\<close>

definition truthy :: "string option \<Rightarrow> bool" where
  "truthy s = (case s of None \<Rightarrow> False | Some x \<Rightarrow> x \<noteq> [])"

text \<open>A possibly missing number is truthy when it is present and not zero.\<close>

definition truthy_num :: "real option \<Rightarrow> bool" where
  "truthy_num v = (case v of None \<Rightarrow> False | Some x \<Rightarrow> x \<noteq> 0)"

text \<open>\<^verbatim>\<open>a || b\<close> on a possibly missing string and a string default.\<close>

definition or_str :: "string option \<Rightarrow> string \<Rightarrow> string" where
  "or_str a b = (case a of None \<Rightarrow> b | Some x \<Rightarrow> if x \<noteq> [] then x else b)"

text \<open>\<^verbatim>\<open>a || b\<close> on a possibly missing number and a number default.\<close>

definition or_num :: "real option \<Rightarrow> real \<Rightarrow> real" where
  "or_num a b = (case a of None \<Rightarrow> b | Some x \<Rightarrow> if x \<noteq> 0 then x else b)"

subsection \<open>The normalizer\<close>

text \<open>
  The regular expression \<^verbatim>\<open>/\/s-l\d+\./\<close> matches at the start of a string:
  \<^verbatim>\<open>/s-l\<close>, at least one digit, a dot.
\<close>

definition thumb_at :: "string \<Rightarrow> bool" where
  "thumb_at s =
     (startsWith s ''/s-l'' \<and> takeWhile is_digit (drop 4 s) \<noteq> []
      \<and> startsWith (dropWhile is_digit (drop 4 s)) ''.'')"

text \<open>
  \<^verbatim>\<open>img.replace(/\/s-l\d+\./, "/s-l1600.")\<close>: the leftmost match is replaced; without a
  match the string is returned as it is.
\<close>

fun replace_thumbnail :: "string \<Rightarrow> string" where
  "replace_thumbnail [] = []"
| "replace_thumbnail (c # cs) =
     (if thumb_at (c # cs)
      then ''/s-l1600.'' @ drop 1 (dropWhile is_digit (drop 4 (c # cs)))
      else c # replace_thumbnail cs)"

text \<open>The function mapped over the kept images.\<close>

definition high_resolution :: "string \<Rightarrow> string" where
  "high_resolution img =
     (if includes_str img ''/s-l'' \<and> includes_str img ''.jpg''
      then replace_thumbnail img else img)"

text \<open>The expression assigned to \<^verbatim>\<open>images\<close>.\<close>

definition format_images :: "api_body \<Rightarrow> string list" where
  "format_images apiData =
     (case b_images apiData of
        Some imgs \<Rightarrow>
          map high_resolution (filter (\<lambda>img. img \<noteq> [] \<and> startsWith img ''http'') imgs)
      | None \<Rightarrow>
          (if truthy (b_mainImage apiData) then [the (b_mainImage apiData)] else []))"

text \<open>\<^verbatim>\<open>Array.prototype.join\<close> with a separator.\<close>

fun join :: "string \<Rightarrow> string list \<Rightarrow> string" where
  "join sep [] = []"
| "join sep [x] = x"
| "join sep (x # y # ys) = x @ sep @ join sep (y # ys)"

text \<open>The template \<^verbatim>\<open>`${info.name}: ${info.value}`\<close>.\<close>

definition info_line :: "string \<times> string \<Rightarrow> string" where
  "info_line info = fst info @ '': '' @ snd info"

definition format_description :: "api_body \<Rightarrow> string" where
  "format_description apiData =
     (let description = or_str (b_description apiData) []
      in if description = [] then
           (case b_productInformation apiData of
              Some infos \<Rightarrow> join [CHR 0x0A] (map info_line infos)
            | None \<Rightarrow> description)
         else description)"

text \<open>\<^verbatim>\<open>Object.keys(apiData).length\<close>.\<close>

definition keys_count :: "api_body \<Rightarrow> nat" where
  "keys_count b =
     (if b_title b = None then 0 else 1) + (if b_price b = None then 0 else 1)
     + (if b_url b = None then 0 else 1) + (if b_mainImage b = None then 0 else 1)
     + (if b_images b = None then 0 else 1) + (if b_options b = None then 0 else 1)
     + (if b_description b = None then 0 else 1)
     + (if b_productInformation b = None then 0 else 1)
     + (if b_breadCrumbs b = None then 0 else 1) + b_other_keys b"

text \<open>The messages of the three response checks.\<close>

definition msg_status :: string where
  "msg_status = ''Failed to fetch product data from eBay. Please check if the URL is valid and the product is available.''"

definition msg_not_found :: string where
  "msg_not_found = ''Product not found. This could mean: 1) The item doesn't exist or is no longer available on eBay, 2) Your RapidAPI key has reached its request limit. Please check your RapidAPI dashboard at https://rapidapi.com/hub and verify your subscription status.''"

definition msg_incomplete :: string where
  "msg_incomplete = ''Incomplete product data received from eBay. The product may not be available for sale. Please try a different product URL.''"

text \<open>
  The normalizer: the statements from \<^verbatim>\<open>basePrice\<close> to the object \<^verbatim>\<open>productData\<close>. It
  runs only after the response checks, so \<^verbatim>\<open>apiData.title\<close> and \<^verbatim>\<open>apiData.price\<close> are
  present where it reads them.
\<close>

definition productData :: "string \<Rightarrow> string \<Rightarrow> api_body \<Rightarrow> ScrapedProduct" where
  "productData ebayUrl itemId apiData =
     (let basePrice = or_num (p_value (the (b_price apiData))) 0;
          images = format_images apiData;
          description = format_description apiData;
          variantsData =
            formatEbayVariants (case b_options apiData of None \<Rightarrow> [] | Some os \<Rightarrow> os)
      in \<lparr>sp_itemId = itemId,
          sp_title = the (b_title apiData),
          sp_description =
            (if description \<noteq> [] then description else ''No description available''),
          sp_price = basePrice,
          sp_currency = or_str (p_currency (the (b_price apiData))) ''USD'',
          sp_images = images,
          sp_options = fr_options variantsData,
          sp_variants =
            map (\<lambda>variant. variant\<lparr>pv_price := Some (or_num (pv_price variant) basePrice)\<rparr>)
              (fr_variants variantsData),
          sp_ebayUrl = or_str (b_url apiData) ebayUrl,
          sp_specifications =
            map_option
              (\<lambda>infos. fold (\<lambda>info m. AList.update (fst info) (snd info) m) infos [])
              (b_productInformation apiData),
          sp_bulletPoints = map_option (map info_line) (b_productInformation apiData),
          sp_categories =
            (case b_breadCrumbs apiData of None \<Rightarrow> [] | Some crumbs \<Rightarrow> map fst crumbs)\<rparr>)"

text \<open>
  The part of the \<^verbatim>\<open>try\<close> block after the request: the three checks of the response,
  then the normalizer. \<^verbatim>\<open>Inl\<close> is a \<^verbatim>\<open>throw\<close>.
\<close>

definition process_response ::
  "string \<Rightarrow> string \<Rightarrow> EbayApiResponse \<Rightarrow> thrown + ScrapedProduct" where
  "process_response ebayUrl itemId response =
     (if original_status response \<noteq> 200 \<or> pc_status response \<noteq> 200 then
        Inl (createScraperError msg_status API_ERROR)
      else
        (case body response of
           None \<Rightarrow> Inl (createScraperError msg_not_found API_ERROR)
         | Some apiData \<Rightarrow>
             if keys_count apiData = 0 then
               Inl (createScraperError msg_not_found API_ERROR)
             else
               (let hasTitle = b_title apiData;
                    hasPrice = (case b_price apiData of None \<Rightarrow> None | Some p \<Rightarrow> p_value p)
                in if \<not> truthy hasTitle \<or> \<not> truthy_num hasPrice then
                     Inl (createScraperError msg_incomplete API_ERROR)
                   else Inr (productData ebayUrl itemId apiData))))"

subsection \<open>The scraper: scrapeEbayProduct\<close>

text \<open>
  What the function reads from outside: the environment variable \<^verbatim>\<open>RAPIDAPI_KEY\<close> and
  the behaviour of \<^verbatim>\<open>axios.post\<close>, which answers a request with a response or rejects.
\<close>

record http_request =
  rq_endpoint :: string
  rq_url :: string
  rq_api_key :: string
  rq_timeout :: nat

datatype http_outcome = Responded EbayApiResponse | Rejected thrown

record environment =
  RAPIDAPI_KEY :: "string option"
  axios_post :: "http_request \<Rightarrow> http_outcome"

definition msg_invalid_url :: string where
  "msg_invalid_url = ''Invalid eBay URL''"

definition msg_no_item_id :: string where
  "msg_no_item_id = ''Could not extract Item ID from URL''"

definition msg_key_missing :: string where
  "msg_key_missing = ''RapidAPI key is required. Please add it in Settings or set RAPIDAPI_KEY environment variable.''"

text \<open>
  The \<^verbatim>\<open>try\<close> block. The second component of the result is the list of requests sent,
  in order: the one effect of the function.
\<close>

definition scrape_try ::
  "environment \<Rightarrow> string \<Rightarrow> string option
     \<Rightarrow> (thrown + ScrapedProduct) \<times> http_request list" where
  "scrape_try env ebayUrl apiKey =
     (if \<not> includes_str ebayUrl ''ebay.'' then
        (Inl (createScraperError msg_invalid_url INVALID_URL), [])
      else
        (case extractItemId ebayUrl of
           None \<Rightarrow> (Inl (createScraperError msg_no_item_id INVALID_URL), [])
         | Some itemId \<Rightarrow>
             (let rapidApiKey = (if truthy apiKey then apiKey else RAPIDAPI_KEY env)
              in if \<not> truthy rapidApiKey then
                   (Inl (createScraperError msg_key_missing API_KEY_MISSING), [])
                 else
                   (let request =
                          \<lparr>rq_endpoint = ''https://real-time-ebay-data.p.rapidapi.com/product.php'',
                           rq_url = ebayUrl,
                           rq_api_key = the rapidApiKey,
                           rq_timeout = 30000\<rparr>
                    in (case axios_post env request of
                          Rejected e \<Rightarrow> (Inl e, [request])
                        | Responded response \<Rightarrow>
                            (process_response ebayUrl itemId response, [request]))))))"

text \<open>The \<^verbatim>\<open>catch\<close> block.\<close>

definition catch_error :: "thrown \<Rightarrow> scrape_result" where
  "catch_error e =
     (case e of
        AxiosError response_message message \<Rightarrow>
          \<lparr>success = False, data = None,
           error = Some (''Failed to fetch eBay product: '' @ or_str response_message message)\<rparr>
      | ScraperError message code \<Rightarrow>
          \<lparr>success = False, data = None, error = Some message\<rparr>
      | OtherError message \<Rightarrow>
          \<lparr>success = False, data = None, error = Some message\<rparr>
      | NonError \<Rightarrow>
          \<lparr>success = False, data = None, error = Some ''Failed to fetch eBay product data''\<rparr>)"

definition scrapeEbayProduct ::
  "environment \<Rightarrow> string \<Rightarrow> string option \<Rightarrow> scrape_result \<times> http_request list" where
  "scrapeEbayProduct env ebayUrl apiKey =
     (case scrape_try env ebayUrl apiKey of
        (Inr product, requests) \<Rightarrow>
          (\<lparr>success = True, data = Some product, error = None\<rparr>, requests)
      | (Inl e, requests) \<Rightarrow> (catch_error e, requests))"

section \<open>Notions used to state the properties\<close>

text \<open>The variant that \<^const>\<open>generateCombinations\<close> pushes for a finished combination.\<close>

definition mk_variant :: "(string \<times> string) list \<Rightarrow> ProductVariant" where
  "mk_variant cur = \<lparr>pv_itemId = '''', pv_options = cur, pv_available = True, pv_price = None\<rparr>"

text \<open>
  The cartesian product of the value lists, options in order and values in order, each
  combination written into the dictionary \<open>cur\<close>.
\<close>

fun combos :: "ProductOption list \<Rightarrow> (string \<times> string) list \<Rightarrow> (string \<times> string) list list" where
  "combos [] cur = [cur]"
| "combos (opt # opts) cur =
     concat (map (\<lambda>v. combos opts (AList.update (po_name opt) v cur)) (po_values opt))"

text \<open>
  The surviving options of a raw options array: the entries that carry a values array
  of which at least one value is left after trimming and out-of-stock filtering.
\<close>

definition surviving :: "raw_option list \<Rightarrow> ProductOption list" where
  "surviving opts =
     [\<lparr>po_name = n, po_values = availableValues vs\<rparr>.
        obj \<leftarrow> opts, (n, Some d) \<leftarrow> obj, Some vs \<leftarrow> [od_values d], availableValues vs \<noteq> []]"

text \<open>A string without white space at either end.\<close>

definition is_trimmed :: "string \<Rightarrow> bool" where
  "is_trimmed s = (s = [] \<or> (\<not> is_ws (hd s) \<and> \<not> is_ws (last s)))"

subsection \<open>Concrete inputs\<close>

text \<open>
  \<^verbatim>\<open>[{"Color": {"values": ["Black", "Pink", "Out of Stock"]}}, {"Size": {"values": ["S", "M"]}}]\<close>
\<close>

definition example_options :: "raw_option list" where
  "example_options =
     [[(''Color'', Some \<lparr>od_values = Some [''Black'', ''Pink'', ''Out of Stock''],
                         od_selectedValue = Some ''''\<rparr>)],
      [(''Size'', Some \<lparr>od_values = Some [''S'', ''M''], od_selectedValue = Some ''''\<rparr>)]]"

text \<open>\<^verbatim>\<open>[{"Color": {"values": ["Out of stock"]}}]\<close>\<close>

definition sold_out_options :: "raw_option list" where
  "sold_out_options =
     [[(''Color'', Some \<lparr>od_values = Some [''Out of stock''], od_selectedValue = None\<rparr>)]]"

text \<open>\<^verbatim>\<open>[{"Size": {"values": ["S", " S", "  "]}}]\<close>\<close>

definition untidy_options :: "raw_option list" where
  "untidy_options =
     [[(''Size'', Some \<lparr>od_values = Some [''S'', '' S'', ''  ''], od_selectedValue = None\<rparr>)]]"

text \<open>\<^verbatim>\<open>[{"Color": {"values": ["Red"]}}, {"Color": {"values": ["Blue", "Green"]}}]\<close>\<close>

definition same_name_options :: "raw_option list" where
  "same_name_options =
     [[(''Color'', Some \<lparr>od_values = Some [''Red''], od_selectedValue = None\<rparr>)],
      [(''Color'', Some \<lparr>od_values = Some [''Blue'', ''Green''], od_selectedValue = None\<rparr>)]]"

text \<open>
  The thumbnail pattern in the words of the specification: a segment \<^verbatim>\<open>/s-l<digits>.\<close>
  followed by \<^verbatim>\<open>.jpg\<close>, read generously: the dot that ends the segment may be the dot
  of \<^verbatim>\<open>.jpg\<close>, and anything may stand between the segment and \<^verbatim>\<open>.jpg\<close>.
\<close>

fun spec_thumbnail_pattern :: "string \<Rightarrow> bool" where
  "spec_thumbnail_pattern [] = False"
| "spec_thumbnail_pattern (c # cs) =
     ((thumb_at (c # cs) \<and> includes_str (dropWhile is_digit (drop 4 (c # cs))) ''.jpg'')
      \<or> spec_thumbnail_pattern cs)"

text \<open>A product URL, a response body and an environment whose remote service answers with a given body.\<close>

definition example_url :: string where
  "example_url = ''https://www.ebay.com/itm/123456789''"

definition plain_body :: api_body where
  "plain_body =
     \<lparr>b_title = Some ''Summer Dress'',
      b_price = Some \<lparr>p_value = Some 20, p_currency = Some ''USD''\<rparr>,
      b_url = None,
      b_mainImage = None,
      b_images = Some [''https://i.ebayimg.com/images/g/abc/s-l500.jpg''],
      b_options = None,
      b_description = None,
      b_productInformation = None,
      b_breadCrumbs = None,
      b_other_keys = 0\<rparr>"

text \<open>The same body with the two-option example as its options.\<close>

definition example_body :: api_body where
  "example_body = plain_body\<lparr>b_options := Some example_options\<rparr>"

definition answer :: "api_body \<Rightarrow> EbayApiResponse" where
  "answer b = \<lparr>original_status = 200, pc_status = 200, body = Some b\<rparr>"

definition respond_with :: "api_body \<Rightarrow> environment" where
  "respond_with b = \<lparr>RAPIDAPI_KEY = None, axios_post = (\<lambda>request. Responded (answer b))\<rparr>"

text \<open>The plain body with an explicit price value of 0, and without a price.\<close>

definition zero_price_body :: api_body where
  "zero_price_body = plain_body\<lparr>b_price := Some \<lparr>p_value = Some 0, p_currency = Some ''USD''\<rparr>\<rparr>"

definition no_price_body :: api_body where
  "no_price_body = plain_body\<lparr>b_price := None\<rparr>"

text \<open>The plain body without an image list, with an absolute and with a relative main image.\<close>

definition main_image_body :: api_body where
  "main_image_body = plain_body\<lparr>b_images := None, b_mainImage := Some ''https://x/a.jpg''\<rparr>"

definition relative_image_body :: api_body where
  "relative_image_body = plain_body\<lparr>b_images := None, b_mainImage := Some ''/images/a.jpg''\<rparr>"

section \<open>Properties of the variant expander\<close>

lemma parse_entry_eq:
  "parse_entry e st =
     st\<lparr>productOptions := productOptions st @ surviving [[e]],
        allOptionValues := allOptionValues st @ surviving [[e]]\<rparr>"
  by (cases e) (auto simp: parse_entry_def surviving_def Let_def split: option.splits)

lemma surviving_Cons_obj: "surviving [e # obj] = surviving [[e]] @ surviving [obj]"
  by (simp add: surviving_def)

lemma surviving_Cons: "surviving (obj # opts) = surviving [obj] @ surviving opts"
  by (simp add: surviving_def)

lemma fold_parse_entry:
  "fold parse_entry obj st =
     st\<lparr>productOptions := productOptions st @ surviving [obj],
        allOptionValues := allOptionValues st @ surviving [obj]\<rparr>"
proof (induction obj arbitrary: st)
  case Nil
  then show ?case by (simp add: surviving_def)
next
  case (Cons e obj)
  have "fold parse_entry (e # obj) st = fold parse_entry obj (parse_entry e st)"
    by simp
  also have "\<dots> = (parse_entry e st)\<lparr>productOptions :=
        productOptions (parse_entry e st) @ surviving [obj],
      allOptionValues := allOptionValues (parse_entry e st) @ surviving [obj]\<rparr>"
    by (rule Cons.IH)
  also have "\<dots> = st\<lparr>productOptions := productOptions st @ surviving [e # obj],
      allOptionValues := allOptionValues st @ surviving [e # obj]\<rparr>"
    by (simp add: parse_entry_eq [of e st] surviving_Cons_obj [of e obj])
  finally show ?case .
qed

lemma fold_parse_objects:
  "fold (\<lambda>optionObj st. fold parse_entry optionObj st) opts st =
     st\<lparr>productOptions := productOptions st @ surviving opts,
        allOptionValues := allOptionValues st @ surviving opts\<rparr>"
proof (induction opts arbitrary: st)
  case Nil
  then show ?case by (simp add: surviving_def)
next
  case (Cons obj opts)
  let ?f = "\<lambda>optionObj st. fold parse_entry optionObj st"
  let ?st = "fold parse_entry obj st"
  have "fold ?f (obj # opts) st = fold ?f opts ?st"
    by simp
  also have "\<dots> = ?st\<lparr>productOptions := productOptions ?st @ surviving opts,
      allOptionValues := allOptionValues ?st @ surviving opts\<rparr>"
    by (rule Cons.IH)
  also have "\<dots> = st\<lparr>productOptions := productOptions st @ surviving (obj # opts),
      allOptionValues := allOptionValues st @ surviving (obj # opts)\<rparr>"
    by (simp add: fold_parse_entry [of obj st] surviving_Cons [of obj opts])
  finally show ?case .
qed

lemma parse_options_surviving:
  "parse_options opts = \<lparr>productOptions = surviving opts, allOptionValues = surviving opts\<rparr>"
  by (simp add: parse_options_def fold_parse_objects)

lemma fold_append_concat:
  "(\<And>v acc. v \<in> set xs \<Longrightarrow> g v acc = acc @ f v) \<Longrightarrow> fold g xs acc = acc @ concat (map f xs)"
  by (induction xs arbitrary: acc) auto

lemma generateCombinations_combos:
  "generateCombinations allv i cur vs = vs @ map mk_variant (combos (drop i allv) cur)"
proof (induction allv i cur vs rule: generateCombinations.induct)
  case (1 allv i cur vs)
  show ?case
  proof (cases "i \<ge> length allv")
    case True
    then show ?thesis
      by (simp add: generateCombinations.simps [of allv i] mk_variant_def)
  next
    case False
    then have lt: "i < length allv" by simp
    have dr: "drop i allv = (allv ! i) # drop (Suc i) allv"
      using lt by (simp add: Cons_nth_drop_Suc)
    have step: "\<And>v acc. v \<in> set (po_values (allv ! i)) \<Longrightarrow>
        generateCombinations allv (i + 1) (AList.update (po_name (allv ! i)) v cur) acc
          = acc @ map mk_variant (combos (drop (Suc i) allv) (AList.update (po_name (allv ! i)) v cur))"
      using "1.IH" [OF False refl] by simp
    have "generateCombinations allv i cur vs =
        fold (\<lambda>value vs. generateCombinations allv (i + 1)
                (AList.update (po_name (allv ! i)) value cur) vs) (po_values (allv ! i)) vs"
      using False by (simp add: generateCombinations.simps [of allv i] Let_def)
    also have "\<dots> = vs @ concat (map (\<lambda>v. map mk_variant (combos (drop (Suc i) allv)
                (AList.update (po_name (allv ! i)) v cur))) (po_values (allv ! i)))"
      by (rule fold_append_concat) (rule step)
    also have "\<dots> = vs @ map mk_variant (combos (drop i allv) cur)"
      by (simp add: dr map_concat comp_def)
    finally show ?thesis .
  qed
qed

lemma length_combos:
  "length (combos opts cur) = prod_list (map (\<lambda>opt. length (po_values opt)) opts)"
proof (induction opts arbitrary: cur)
  case Nil
  then show ?case by simp
next
  case (Cons opt opts)
  then show ?case by (simp add: length_concat comp_def sum_list_triv)
qed

lemma combos_keys:
  "c \<in> set (combos opts cur) \<Longrightarrow> fst ` set c = fst ` set cur \<union> po_name ` set opts"
proof (induction opts arbitrary: cur)
  case Nil
  then show ?case by simp
next
  case (Cons opt opts)
  from Cons.prems obtain v where v: "v \<in> set (po_values opt)"
    and c: "c \<in> set (combos opts (AList.update (po_name opt) v cur))"
    by auto
  have "fst ` set c = fst ` set (AList.update (po_name opt) v cur) \<union> po_name ` set opts"
    by (rule Cons.IH [OF c])
  then show ?case by (simp add: AList.dom_update Un_assoc insert_commute Un_commute Un_left_commute)
qed

lemma combos_distinct:
  "c \<in> set (combos opts cur) \<Longrightarrow> distinct (map fst cur) \<Longrightarrow> distinct (map fst c)"
proof (induction opts arbitrary: cur)
  case Nil
  then show ?case by simp
next
  case (Cons opt opts)
  then show ?case by (auto simp: AList.distinct_update)
qed

lemma formatEbayVariants_eq:
  "formatEbayVariants opts =
     (if surviving opts = [] then \<lparr>fr_options = [], fr_variants = []\<rparr>
      else \<lparr>fr_options = surviving opts,
            fr_variants = map mk_variant (combos (surviving opts) [])\<rparr>)"
proof (cases "opts = []")
  case True
  then show ?thesis by (simp add: formatEbayVariants_def surviving_def)
next
  case False
  then show ?thesis
    by (simp add: formatEbayVariants_def parse_options_surviving Let_def
        generateCombinations_combos)
qed

lemma one_entry_per_key:
  "distinct (map fst c) \<Longrightarrow> n \<in> fst ` set c \<Longrightarrow> length (filter (\<lambda>e. fst e = n) c) = 1"
proof (induction c)
  case Nil
  then show ?case by simp
next
  case (Cons e c)
  show ?case
  proof (cases "fst e = n")
    case True
    with Cons.prems have "n \<notin> fst ` set c" by auto
    then have "filter (\<lambda>e. fst e = n) c = []"
      by (auto simp: filter_empty_conv)
    with True show ?thesis by simp
  next
    case False
    with Cons show ?thesis by auto
  qed
qed

lemma variant_options_in_combos:
  assumes "v \<in> set (fr_variants (formatEbayVariants opts))"
  shows "surviving opts \<noteq> [] \<and> pv_options v \<in> set (combos (surviving opts) [])
         \<and> v = mk_variant (pv_options v)"
proof (cases "surviving opts = []")
  case True
  with assms show ?thesis by (simp add: formatEbayVariants_eq)
next
  case False
  with assms obtain c where "c \<in> set (combos (surviving opts) [])" "v = mk_variant c"
    by (auto simp: formatEbayVariants_eq)
  with False show ?thesis by (simp add: mk_variant_def)
qed

lemma hd_trim: "trim s \<noteq> [] \<Longrightarrow> \<not> is_ws (hd (trim s))"
proof -
  assume ne: "trim s \<noteq> []"
  let ?t = "dropWhile is_ws s"
  let ?u = "dropWhile is_ws (rev ?t)"
  have une: "?u \<noteq> []" using ne by (simp add: trim_def)
  have tne: "?t \<noteq> []"
  proof
    assume "?t = []"
    then have "?u = []" by (simp only: rev.simps dropWhile.simps)
    with une show False by simp
  qed
  have h: "\<not> is_ws (hd ?t)" using tne by (rule hd_dropWhile)
  have "rev ?t = takeWhile is_ws (rev ?t) @ ?u" by simp
  then have "last (rev ?t) = last ?u" using une by (metis last_appendR)
  moreover have "last (rev ?t) = hd ?t" using tne by (simp add: last_rev)
  moreover have "hd (rev ?u) = last ?u" using une by (simp add: hd_rev)
  ultimately have "hd (trim s) = hd ?t" by (simp add: trim_def)
  with h show ?thesis by simp
qed

lemma last_trim: "trim s \<noteq> [] \<Longrightarrow> \<not> is_ws (last (trim s))"
proof -
  assume ne: "trim s \<noteq> []"
  let ?u = "dropWhile is_ws (rev (dropWhile is_ws s))"
  have une: "?u \<noteq> []" using ne by (simp add: trim_def)
  have "\<not> is_ws (hd ?u)" using une by (rule hd_dropWhile)
  moreover have "last (rev ?u) = hd ?u" using une by (simp add: last_rev)
  ultimately show ?thesis by (simp add: trim_def)
qed

lemma is_trimmed_trim: "is_trimmed (trim s)"
  using hd_trim [of s] last_trim [of s] by (auto simp: is_trimmed_def)

lemma surviving_obj_mem:
  "opt \<in> set (surviving [obj]) \<Longrightarrow> \<exists>e \<in> set obj. opt \<in> set (surviving [[e]])"
proof (induction obj)
  case Nil
  then show ?case by (simp add: surviving_def)
next
  case (Cons e obj)
  from Cons.prems have "opt \<in> set (surviving [[e]]) \<or> opt \<in> set (surviving [obj])"
    by (simp add: surviving_Cons_obj [of e obj])
  with Cons.IH show ?case by auto
qed

lemma surviving_mem:
  "opt \<in> set (surviving opts) \<Longrightarrow> \<exists>obj \<in> set opts. opt \<in> set (surviving [obj])"
proof (induction opts)
  case Nil
  then show ?case by (simp add: surviving_def)
next
  case (Cons obj opts)
  from Cons.prems have "opt \<in> set (surviving [obj]) \<or> opt \<in> set (surviving opts)"
    by (simp add: surviving_Cons [of obj opts])
  with Cons.IH show ?case by auto
qed

lemma surviving_origin:
  assumes "opt \<in> set (surviving opts)"
  shows "\<exists>obj \<in> set opts. \<exists>d raw. (po_name opt, Some d) \<in> set obj \<and> od_values d = Some raw
           \<and> po_values opt = availableValues raw \<and> availableValues raw \<noteq> []"
proof -
  from surviving_mem [OF assms] obtain obj where obj: "obj \<in> set opts"
    and "opt \<in> set (surviving [obj])" by blast
  from surviving_obj_mem [OF this(2)] obtain e where e: "e \<in> set obj"
    and o: "opt \<in> set (surviving [[e]])" by blast
  obtain n y where ny: "e = (n, y)" by (cases e)
  from o ny obtain d where d: "y = Some d"
    by (cases y) (auto simp: surviving_def)
  from o ny d obtain raw where raw: "od_values d = Some raw"
    by (cases "od_values d") (auto simp: surviving_def)
  from o ny d raw have ne: "availableValues raw \<noteq> []"
    and eq: "opt = \<lparr>po_name = n, po_values = availableValues raw\<rparr>"
    by (auto simp: surviving_def split: if_splits)
  from eq have "po_name opt = n" "po_values opt = availableValues raw" by simp_all
  with obj e ny d raw ne show ?thesis by blast
qed

lemma set_update_subset: "e \<in> set (AList.update k v al) \<Longrightarrow> e = (k, v) \<or> e \<in> set al"
  by (induction al) (auto split: if_splits)

lemma combos_entries:
  "c \<in> set (combos opts cur) \<Longrightarrow> e \<in> set c \<Longrightarrow>
     e \<in> set cur \<or> (\<exists>opt \<in> set opts. fst e = po_name opt \<and> snd e \<in> set (po_values opt))"
proof (induction opts arbitrary: cur)
  case Nil
  then show ?case by simp
next
  case (Cons opt opts)
  from Cons.prems(1) obtain v where v: "v \<in> set (po_values opt)"
    and c: "c \<in> set (combos opts (AList.update (po_name opt) v cur))"
    by auto
  from Cons.IH [OF c Cons.prems(2)]
  consider "e \<in> set (AList.update (po_name opt) v cur)"
    | "\<exists>opt' \<in> set opts. fst e = po_name opt' \<and> snd e \<in> set (po_values opt')" by blast
  then show ?case
  proof cases
    case 1
    from set_update_subset [OF 1] v show ?thesis by auto
  next
    case 2
    then show ?thesis by auto
  qed
qed

lemma unique_option_for_name:
  assumes "distinct (map po_name opts)" and "k \<in> po_name ` set opts"
  shows "\<exists>!opt. opt \<in> set opts \<and> po_name opt = k"
proof -
  from assms(1) have inj: "inj_on po_name (set opts)" by (simp add: distinct_map)
  from assms(2) obtain opt where o: "opt \<in> set opts" "po_name opt = k" by auto
  show ?thesis
  proof (rule ex1I [of _ opt])
    from o show "opt \<in> set opts \<and> po_name opt = k" by simp
  next
    fix x assume "x \<in> set opts \<and> po_name x = k"
    with o inj show "x = opt" by (auto dest: inj_onD)
  qed
qed

lemma variant_entries_count:
  assumes "v \<in> set (fr_variants (formatEbayVariants opts))"
    and "distinct (map po_name (fr_options (formatEbayVariants opts)))"
  shows "length (pv_options v) = length (fr_options (formatEbayVariants opts))"
proof -
  from variant_options_in_combos [OF assms(1)]
  have c: "pv_options v \<in> set (combos (surviving opts) [])" by simp
  have opts_eq: "fr_options (formatEbayVariants opts) = surviving opts"
    by (simp add: formatEbayVariants_eq)
  have "set (map fst (pv_options v)) = set (map po_name (surviving opts))"
    using combos_keys [OF c] by simp
  moreover have "distinct (map fst (pv_options v))"
    using combos_distinct [OF c] by simp
  moreover have "distinct (map po_name (surviving opts))"
    using assms(2) by (simp only: opts_eq)
  ultimately have "length (map fst (pv_options v)) = length (map po_name (surviving opts))"
    by (metis distinct_card)
  then show ?thesis by (simp add: opts_eq)
qed

text \<open>
  Claim C1. For every options input, the returned options are the surviving options and
  the number of generated variants is the product of the lengths of their value lists;
  when the input is empty or no option survives, the returned options and variants are
  both empty. For the input with Color = Black, Pink, Out of Stock and Size = S, M the
  result has 2 options and 2 * 2 = 4 variants, and no variant has the Color value
  "Out of Stock".
\<close>

theorem variant_count_is_product:
  "fr_options (formatEbayVariants opts) = surviving opts
   \<and> length (fr_variants (formatEbayVariants opts)) =
       (if surviving opts = [] then 0
        else prod_list (map (\<lambda>opt. length (po_values opt)) (surviving opts)))
   \<and> (opts = [] \<or> surviving opts = [] \<longrightarrow>
        fr_options (formatEbayVariants opts) = [] \<and> fr_variants (formatEbayVariants opts) = [])
   \<and> length (fr_options (formatEbayVariants example_options)) = 2
   \<and> length (fr_variants (formatEbayVariants example_options)) = 2 * 2
   \<and> (\<forall>v \<in> set (fr_variants (formatEbayVariants example_options)).
        map_of (pv_options v) ''Color'' \<noteq> Some ''Out of Stock'')"
proof -
  have a: "fr_options (formatEbayVariants opts) = surviving opts"
    by (simp add: formatEbayVariants_eq)
  have b: "length (fr_variants (formatEbayVariants opts)) =
       (if surviving opts = [] then 0
        else prod_list (map (\<lambda>opt. length (po_values opt)) (surviving opts)))"
    by (simp add: formatEbayVariants_eq length_combos)
  have c: "opts = [] \<or> surviving opts = [] \<longrightarrow>
        fr_options (formatEbayVariants opts) = [] \<and> fr_variants (formatEbayVariants opts) = []"
    by (auto simp: formatEbayVariants_eq surviving_def)
  have d: "length (fr_options (formatEbayVariants example_options)) = 2"
    by code_simp
  have e: "length (fr_variants (formatEbayVariants example_options)) = 2 * 2"
    by code_simp
  have f: "\<forall>v \<in> set (fr_variants (formatEbayVariants example_options)).
        map_of (pv_options v) ''Color'' \<noteq> Some ''Out of Stock''"
    by code_simp
  from a b c d e f show ?thesis by blast
qed

text \<open>
  The count at three inputs: one where the only value is out of stock, the empty array,
  and the two-option example.
\<close>

theorem variant_count_is_product_witness:
  "surviving sold_out_options = []
   \<and> fr_options (formatEbayVariants sold_out_options) = []
   \<and> fr_variants (formatEbayVariants sold_out_options) = []
   \<and> fr_options (formatEbayVariants []) = []
   \<and> fr_variants (formatEbayVariants []) = []
   \<and> length (fr_variants (formatEbayVariants example_options)) = 4"
proof -
  have s: "surviving sold_out_options = []" by code_simp
  have u: "surviving [] = []" by (simp add: surviving_def)
  have t: "surviving example_options =
      [\<lparr>po_name = ''Color'', po_values = [''Black'', ''Pink'']\<rparr>,
       \<lparr>po_name = ''Size'', po_values = [''S'', ''M'']\<rparr>]" by code_simp
  show ?thesis
    using variant_count_is_product [of sold_out_options]
      variant_count_is_product [of "[]"]
      variant_count_is_product [of example_options]
    by (simp add: s t u)
qed

text \<open>
  Claim C8, as the code has it. For every variant of every output of the variant
  expander: the options map of the variant has exactly one entry for the name of each
  surviving option, the set of its keys is the set of surviving option names, and every
  entry pairs the name of a surviving option with one of that option's values. When the
  names of the surviving options are pairwise distinct, each key is the name of exactly
  one surviving option and the map has as many entries as there are surviving options.
  Surviving options that share a name share one entry.
\<close>

theorem variant_keys_are_option_names:
  assumes "v \<in> set (fr_variants (formatEbayVariants opts))"
  shows "(\<forall>opt \<in> set (fr_options (formatEbayVariants opts)).
            length (filter (\<lambda>e. fst e = po_name opt) (pv_options v)) = 1)
         \<and> fst ` set (pv_options v) = po_name ` set (fr_options (formatEbayVariants opts))
         \<and> (\<forall>e \<in> set (pv_options v).
              \<exists>opt \<in> set (fr_options (formatEbayVariants opts)).
                po_name opt = fst e \<and> snd e \<in> set (po_values opt))
         \<and> (distinct (map po_name (fr_options (formatEbayVariants opts))) \<longrightarrow>
               (\<forall>e \<in> set (pv_options v).
                  \<exists>!opt. opt \<in> set (fr_options (formatEbayVariants opts)) \<and> po_name opt = fst e)
               \<and> length (pv_options v) = length (fr_options (formatEbayVariants opts)))"
proof -
  from variant_options_in_combos [OF assms]
  have c: "pv_options v \<in> set (combos (surviving opts) [])" by simp
  have opts_eq: "fr_options (formatEbayVariants opts) = surviving opts"
    by (simp add: formatEbayVariants_eq)
  have keys: "fst ` set (pv_options v) = po_name ` set (surviving opts)"
    using combos_keys [OF c] by simp
  have dist: "distinct (map fst (pv_options v))"
    using combos_distinct [OF c] by simp
  have one: "\<forall>opt \<in> set (surviving opts).
      length (filter (\<lambda>e. fst e = po_name opt) (pv_options v)) = 1"
  proof
    fix opt assume "opt \<in> set (surviving opts)"
    then have "po_name opt \<in> fst ` set (pv_options v)" using keys by blast
    with dist show "length (filter (\<lambda>e. fst e = po_name opt) (pv_options v)) = 1"
      by (rule one_entry_per_key)
  qed
  have origin: "\<forall>e \<in> set (pv_options v).
      \<exists>opt \<in> set (surviving opts). po_name opt = fst e \<and> snd e \<in> set (po_values opt)"
  proof
    fix e assume "e \<in> set (pv_options v)"
    from combos_entries [OF c this]
    show "\<exists>opt \<in> set (surviving opts). po_name opt = fst e \<and> snd e \<in> set (po_values opt)"
      by auto
  qed
  have uniq: "distinct (map po_name (surviving opts)) \<longrightarrow>
      (\<forall>e \<in> set (pv_options v). \<exists>!opt. opt \<in> set (surviving opts) \<and> po_name opt = fst e)
      \<and> length (pv_options v) = length (surviving opts)"
  proof
    assume d: "distinct (map po_name (surviving opts))"
    have "\<forall>e \<in> set (pv_options v). \<exists>!opt. opt \<in> set (surviving opts) \<and> po_name opt = fst e"
    proof
      fix e assume "e \<in> set (pv_options v)"
      then have "fst e \<in> fst ` set (pv_options v)" by (rule imageI)
      then have "fst e \<in> po_name ` set (surviving opts)" by (simp only: keys)
      with d show "\<exists>!opt. opt \<in> set (surviving opts) \<and> po_name opt = fst e"
        by (rule unique_option_for_name)
    qed
    moreover have "length (pv_options v) = length (surviving opts)"
      using variant_entries_count [OF assms] d by (simp add: opts_eq)
    ultimately show "(\<forall>e \<in> set (pv_options v).
        \<exists>!opt. opt \<in> set (surviving opts) \<and> po_name opt = fst e)
      \<and> length (pv_options v) = length (surviving opts)" ..
  qed
  from one keys origin uniq show ?thesis by (simp only: opts_eq)
qed

text \<open>
  The variant Pink / M of the two-option example, whose option names Color and Size are
  distinct.
\<close>

theorem variant_keys_are_option_names_witness:
  "\<lparr>pv_itemId = '''', pv_options = [(''Color'', ''Pink''), (''Size'', ''M'')],
     pv_available = True, pv_price = None\<rparr> \<in> set (fr_variants (formatEbayVariants example_options))
   \<and> distinct (map po_name (fr_options (formatEbayVariants example_options)))
   \<and> fst ` set [(''Color'', ''Pink''), (''Size'', ''M'')]
       = po_name ` set (fr_options (formatEbayVariants example_options))
   \<and> length (fr_options (formatEbayVariants example_options)) = 2
   \<and> (\<exists>!opt. opt \<in> set (fr_options (formatEbayVariants example_options))
          \<and> po_name opt = ''Size'')"
proof -
  let ?v = "\<lparr>pv_itemId = '''', pv_options = [(''Color'', ''Pink''), (''Size'', ''M'')],
     pv_available = True, pv_price = None\<rparr>"
  have m: "?v \<in> set (fr_variants (formatEbayVariants example_options))"
    by code_simp
  have d: "distinct (map po_name (fr_options (formatEbayVariants example_options)))"
    by code_simp
  from variant_keys_are_option_names [OF m] m d show ?thesis by simp
qed

text \<open>
  The claim C8 as written fails: from two descriptors that are both named Color the
  expander returns two options named Color and variants with the single key Color, so
  the key matches two surviving options, not exactly one.
\<close>

theorem same_name_options_counterexample:
  "fr_options (formatEbayVariants same_name_options)
     = [\<lparr>po_name = ''Color'', po_values = [''Red'']\<rparr>,
        \<lparr>po_name = ''Color'', po_values = [''Blue'', ''Green'']\<rparr>]
   \<and> map pv_options (fr_variants (formatEbayVariants same_name_options))
     = [[(''Color'', ''Blue'')], [(''Color'', ''Green'')]]
   \<and> length (filter (\<lambda>opt. po_name opt = ''Color'')
               (fr_options (formatEbayVariants same_name_options))) = 2
   \<and> \<not> (\<exists>!opt. opt \<in> set (fr_options (formatEbayVariants same_name_options))
             \<and> po_name opt = ''Color'')"
proof -
  have a: "fr_options (formatEbayVariants same_name_options)
     = [\<lparr>po_name = ''Color'', po_values = [''Red'']\<rparr>,
        \<lparr>po_name = ''Color'', po_values = [''Blue'', ''Green'']\<rparr>]"
    by code_simp
  have b: "map pv_options (fr_variants (formatEbayVariants same_name_options))
     = [[(''Color'', ''Blue'')], [(''Color'', ''Green'')]]"
    by code_simp
  let ?red = "\<lparr>po_name = ''Color'', po_values = [''Red'']\<rparr>"
  let ?blue = "\<lparr>po_name = ''Color'', po_values = [''Blue'', ''Green'']\<rparr>"
  have c: "\<not> (\<exists>!opt. opt \<in> set [?red, ?blue] \<and> po_name opt = ''Color'')"
  proof
    assume "\<exists>!opt. opt \<in> set [?red, ?blue] \<and> po_name opt = ''Color''"
    then obtain x where x: "\<And>y. y \<in> set [?red, ?blue] \<and> po_name y = ''Color'' \<Longrightarrow> y = x"
      by (blast elim: ex1E)
    have "?red = x" by (rule x) simp
    moreover have "?blue = x" by (rule x) simp
    ultimately have "?red = ?blue" by simp
    then show False by simp
  qed
  from a b c show ?thesis by simp
qed

text \<open>
  Claim C9, as the code has it. Every option produced by the variant expander comes from
  an entry of the input whose values array, trimmed value by value and with the values
  that contain "out of stock" in lower case removed, is the option's value list, in the
  same order. The list is not empty, every value in it is trimmed and none contains
  "out of stock" in lower case. Empty strings and repeated values are kept.
\<close>

theorem option_values_trimmed_and_filtered:
  assumes "opt \<in> set (fr_options (formatEbayVariants opts))"
  shows "(\<exists>obj \<in> set opts. \<exists>d raw. (po_name opt, Some d) \<in> set obj \<and> od_values d = Some raw
            \<and> po_values opt =
                filter (\<lambda>v. \<not> includes_str (toLowerCase v) ''out of stock'') (map trim raw))
         \<and> po_values opt \<noteq> []
         \<and> (\<forall>v \<in> set (po_values opt).
              is_trimmed v \<and> \<not> includes_str (toLowerCase v) ''out of stock'')"
proof -
  from assms have "opt \<in> set (surviving opts)"
    by (simp add: formatEbayVariants_eq split: if_splits)
  from surviving_origin [OF this] obtain obj d raw where
    obj: "obj \<in> set opts" and e: "(po_name opt, Some d) \<in> set obj"
    and raw: "od_values d = Some raw" and vals: "po_values opt = availableValues raw"
    and ne: "availableValues raw \<noteq> []"
    by blast
  have "\<forall>v \<in> set (po_values opt).
      is_trimmed v \<and> \<not> includes_str (toLowerCase v) ''out of stock''"
    using vals by (auto simp: availableValues_def is_trimmed_trim)
  moreover have "po_values opt \<noteq> []" using vals ne by simp
  moreover have "\<exists>obj \<in> set opts. \<exists>d raw. (po_name opt, Some d) \<in> set obj
      \<and> od_values d = Some raw
      \<and> po_values opt =
          filter (\<lambda>v. \<not> includes_str (toLowerCase v) ''out of stock'') (map trim raw)"
    using obj e raw vals unfolding availableValues_def by blast
  ultimately show ?thesis by blast
qed

text \<open>The option Color of the two-option example.\<close>

theorem option_values_trimmed_and_filtered_witness:
  "\<lparr>po_name = ''Color'', po_values = [''Black'', ''Pink'']\<rparr>
      \<in> set (fr_options (formatEbayVariants example_options))
   \<and> is_trimmed ''Black'' \<and> is_trimmed ''Pink''
   \<and> \<not> includes_str (toLowerCase ''Pink'') ''out of stock''"
proof -
  let ?o = "\<lparr>po_name = ''Color'', po_values = [''Black'', ''Pink'']\<rparr>"
  have m: "?o \<in> set (fr_options (formatEbayVariants example_options))"
    by code_simp
  from option_values_trimmed_and_filtered [OF m] m show ?thesis by simp
qed

text \<open>
  The claim C9 as written fails: from the values "S", " S" and "  " the expander
  produces the value list "S", "S", "", which repeats a value and holds an empty string.
\<close>

theorem option_values_distinct_nonempty_counterexample:
  "length (fr_options (formatEbayVariants untidy_options)) = 1
   \<and> po_values (hd (fr_options (formatEbayVariants untidy_options))) = [''S'', ''S'', '''']
   \<and> \<not> distinct (po_values (hd (fr_options (formatEbayVariants untidy_options))))
   \<and> [] \<in> set (po_values (hd (fr_options (formatEbayVariants untidy_options))))"
  by code_simp

section \<open>Properties of the scraper\<close>

subsection \<open>Control flow\<close>

lemma catch_error_shape:
  "\<exists>msg. catch_error e = \<lparr>success = False, data = None, error = Some msg\<rparr>"
  by (cases e) (simp_all add: catch_error_def)

lemma scrape_try_requests: "length (snd (scrape_try env ebayUrl apiKey)) \<le> 1"
  by (simp add: scrape_try_def Let_def split: option.splits http_outcome.splits)

lemma process_response_cases:
  "process_response ebayUrl itemId response =
     (if original_status response \<noteq> 200 \<or> pc_status response \<noteq> 200
      then Inl (ScraperError msg_status API_ERROR)
      else case body response of
             None \<Rightarrow> Inl (ScraperError msg_not_found API_ERROR)
           | Some apiData \<Rightarrow>
               if keys_count apiData = 0 then Inl (ScraperError msg_not_found API_ERROR)
               else if \<not> truthy (b_title apiData)
                       \<or> \<not> truthy_num (case b_price apiData of None \<Rightarrow> None | Some p \<Rightarrow> p_value p)
               then Inl (ScraperError msg_incomplete API_ERROR)
               else Inr (productData ebayUrl itemId apiData))"
  by (simp add: process_response_def createScraperError_def Let_def split: option.splits)

lemma extractItemId_None_iff:
  "extractItemId url = None \<longleftrightarrow> (\<forall>i \<le> length url. \<not> itm_at (drop i url))"
proof (induction url)
  case Nil
  then show ?case by (simp add: itm_at_def toLowerCase_def)
next
  case (Cons c cs)
  have "(\<forall>i \<le> length (c # cs). \<not> itm_at (drop i (c # cs)))
      \<longleftrightarrow> (\<not> itm_at (c # cs) \<and> (\<forall>i \<le> length cs. \<not> itm_at (drop i cs)))"
  proof
    assume a: "\<forall>i \<le> length (c # cs). \<not> itm_at (drop i (c # cs))"
    have "\<not> itm_at (c # cs)" using a [rule_format, of 0] by simp
    moreover have "\<forall>i \<le> length cs. \<not> itm_at (drop i cs)"
    proof (intro allI impI)
      fix i assume "i \<le> length cs"
      then show "\<not> itm_at (drop i cs)" using a [rule_format, of "Suc i"] by simp
    qed
    ultimately show "\<not> itm_at (c # cs) \<and> (\<forall>i \<le> length cs. \<not> itm_at (drop i cs))" ..
  next
    assume b: "\<not> itm_at (c # cs) \<and> (\<forall>i \<le> length cs. \<not> itm_at (drop i cs))"
    show "\<forall>i \<le> length (c # cs). \<not> itm_at (drop i (c # cs))"
    proof (intro allI impI)
      fix i assume "i \<le> length (c # cs)"
      then show "\<not> itm_at (drop i (c # cs))" using b by (cases i) auto
    qed
  qed
  with Cons.IH show ?case by simp
qed

lemma extractItemId_Some_digits:
  "extractItemId url = Some ds \<Longrightarrow> ds \<noteq> [] \<and> (\<forall>c \<in> set ds. is_digit c)"
proof (induction url)
  case Nil
  then show ?case by simp
next
  case (Cons c cs)
  show ?case
  proof (cases "itm_at (c # cs)")
    case True
    with Cons.prems have ds: "ds = takeWhile is_digit (drop 5 (c # cs))" by simp
    from True have "takeWhile is_digit (drop 5 (c # cs)) \<noteq> []" by (simp add: itm_at_def)
    with ds show ?thesis by (auto dest: set_takeWhileD)
  next
    case False
    with Cons show ?thesis by simp
  qed
qed

lemma process_response_Inr:
  assumes "process_response ebayUrl itemId response = Inr product"
  shows "\<exists>apiData. body response = Some apiData \<and> product = productData ebayUrl itemId apiData
           \<and> truthy (b_title apiData)
           \<and> truthy_num (case b_price apiData of None \<Rightarrow> None | Some p \<Rightarrow> p_value p)"
  using assms
  by (auto simp: process_response_cases split: if_splits option.splits)

lemma scrape_try_Inr:
  assumes "scrape_try env ebayUrl apiKey = (Inr product, requests)"
  shows "\<exists>itemId response. extractItemId ebayUrl = Some itemId
           \<and> process_response ebayUrl itemId response = Inr product"
  using assms
  by (auto simp: scrape_try_def Let_def split: if_splits option.splits http_outcome.splits)

lemma scrape_success_product:
  assumes "data (fst (scrapeEbayProduct env ebayUrl apiKey)) = Some product"
  shows "\<exists>itemId apiData. product = productData ebayUrl itemId apiData
           \<and> truthy (b_title apiData)
           \<and> truthy_num (case b_price apiData of None \<Rightarrow> None | Some p \<Rightarrow> p_value p)"
proof (cases "scrape_try env ebayUrl apiKey")
  case (Pair r requests)
  show ?thesis
  proof (cases r)
    case (Inl e)
    with Pair assms catch_error_shape [of e] show ?thesis
      by (auto simp: scrapeEbayProduct_def)
  next
    case (Inr p)
    with Pair assms have "p = product" by (simp add: scrapeEbayProduct_def)
    with Pair Inr have "scrape_try env ebayUrl apiKey = (Inr product, requests)" by simp
    from scrape_try_Inr [OF this] obtain itemId response where
      "process_response ebayUrl itemId response = Inr product" by blast
    from process_response_Inr [OF this] show ?thesis by blast
  qed
qed

lemma productData_variant_prices:
  assumes "v \<in> set (sp_variants (productData ebayUrl itemId apiData))"
  shows "pv_price v = Some (sp_price (productData ebayUrl itemId apiData))"
proof -
  let ?opts = "case b_options apiData of None \<Rightarrow> [] | Some os \<Rightarrow> os"
  let ?base = "or_num (p_value (the (b_price apiData))) 0"
  from assms obtain w where w: "w \<in> set (fr_variants (formatEbayVariants ?opts))"
    and v: "v = w\<lparr>pv_price := Some (or_num (pv_price w) ?base)\<rparr>"
    by (auto simp: productData_def Let_def)
  from variant_options_in_combos [OF w] have "w = mk_variant (pv_options w)" by simp
  then have "pv_price w = pv_price (mk_variant (pv_options w))" by simp
  then have "pv_price w = None" by (simp add: mk_variant_def)
  with v have "pv_price v = Some ?base" by (simp add: or_num_def)
  moreover have "sp_price (productData ebayUrl itemId apiData) = ?base"
    by (simp add: productData_def Let_def)
  ultimately show ?thesis by simp
qed

lemma process_response_ok:
  assumes "keys_count b \<noteq> 0" and "truthy (b_title b)"
    and "truthy_num (case b_price b of None \<Rightarrow> None | Some p \<Rightarrow> p_value p)"
  shows "process_response url itemId (answer b) = Inr (productData url itemId b)"
  using assms by (simp add: process_response_cases answer_def)

lemma process_response_incomplete:
  assumes "keys_count b \<noteq> 0"
    and "\<not> truthy (b_title b)
         \<or> \<not> truthy_num (case b_price b of None \<Rightarrow> None | Some p \<Rightarrow> p_value p)"
  shows "process_response url itemId (answer b) = Inl (ScraperError msg_incomplete API_ERROR)"
  using assms by (auto simp: process_response_cases answer_def)

lemma scrape_respond_with:
  assumes "includes_str url ''ebay.''" and "extractItemId url = Some itemId" and "key \<noteq> []"
  shows "fst (scrapeEbayProduct (respond_with b) url (Some key))
           = (case process_response url itemId (answer b) of
                Inl e \<Rightarrow> catch_error e
              | Inr product \<Rightarrow> \<lparr>success = True, data = Some product, error = None\<rparr>)"
  using assms
  by (simp add: scrapeEbayProduct_def scrape_try_def respond_with_def truthy_def Let_def
      split: sum.splits)

lemma example_url_valid:
  "includes_str example_url ''ebay.''" "extractItemId example_url = Some ''123456789''"
  by code_simp+

lemma plain_body_facts:
  "keys_count plain_body \<noteq> 0" "truthy (b_title plain_body)"
  "truthy_num (case b_price plain_body of None \<Rightarrow> None | Some p \<Rightarrow> p_value p)"
  by (simp_all add: plain_body_def keys_count_def truthy_def truthy_num_def)

lemma example_body_facts:
  "keys_count example_body \<noteq> 0" "truthy (b_title example_body)"
  "truthy_num (case b_price example_body of None \<Rightarrow> None | Some p \<Rightarrow> p_value p)"
  by (simp_all add: example_body_def plain_body_def keys_count_def truthy_def truthy_num_def)

lemma scrape_example_body:
  "fst (scrapeEbayProduct (respond_with example_body) example_url (Some ''key''))
     = \<lparr>success = True, data = Some (productData example_url ''123456789'' example_body),
        error = None\<rparr>"
  by (simp add: scrape_respond_with [OF example_url_valid] process_response_ok [OF example_body_facts])

subsection \<open>Strings and images\<close>

lemma startsWith_iff: "startsWith s p \<longleftrightarrow> (\<exists>r. s = p @ r)"
  by (induction s p rule: startsWith.induct) auto

lemma includes_str_iff: "includes_str s p \<longleftrightarrow> (\<exists>a b. s = a @ p @ b)"
proof (induction s)
  case Nil
  then show ?case by auto
next
  case (Cons c cs)
  show ?case
  proof
    assume "includes_str (c # cs) p"
    then consider "startsWith (c # cs) p" | "includes_str cs p" by auto
    then show "\<exists>a b. c # cs = a @ p @ b"
    proof cases
      case 1
      then obtain r where "c # cs = p @ r" by (auto simp: startsWith_iff)
      then have "c # cs = [] @ p @ r" by simp
      then show ?thesis by blast
    next
      case 2
      with Cons.IH obtain a b where "cs = a @ p @ b" by blast
      then have "c # cs = (c # a) @ p @ b" by simp
      then show ?thesis by blast
    qed
  next
    assume "\<exists>a b. c # cs = a @ p @ b"
    then obtain a b where ab: "c # cs = a @ p @ b" by blast
    show "includes_str (c # cs) p"
    proof (cases a)
      case Nil
      with ab have "startsWith (c # cs) p" by (auto simp: startsWith_iff)
      then show ?thesis by simp
    next
      case (Cons x a')
      with ab have "cs = a' @ p @ b" by simp
      with Cons.IH have "includes_str cs p" by blast
      then show ?thesis by simp
    qed
  qed
qed

lemma thumb_at_decomp:
  assumes "thumb_at s"
  shows "\<exists>ds post. s = ''/s-l'' @ ds @ ''.'' @ post \<and> ds \<noteq> [] \<and> (\<forall>c \<in> set ds. is_digit c)
           \<and> post = drop 1 (dropWhile is_digit (drop 4 s))"
proof -
  let ?ds = "takeWhile is_digit (drop 4 s)"
  let ?rest = "dropWhile is_digit (drop 4 s)"
  from assms have a: "startsWith s ''/s-l''" and b: "?ds \<noteq> []" and c: "startsWith ?rest ''.''"
    by (simp_all add: thumb_at_def)
  from a obtain r where r: "s = ''/s-l'' @ r" by (auto simp: startsWith_iff)
  then have r4: "drop 4 s = r" by simp
  from c obtain post where post: "?rest = ''.'' @ post" by (auto simp: startsWith_iff)
  have "r = ?ds @ ?rest" using r4 by simp
  with r post have "s = ''/s-l'' @ ?ds @ ''.'' @ post" by simp
  moreover have "\<forall>c \<in> set ?ds. is_digit c" by (auto dest: set_takeWhileD)
  moreover have "post = drop 1 ?rest" using post by simp
  ultimately show ?thesis using b by blast
qed

lemma replace_thumbnail_no_match:
  "(\<forall>i \<le> length s. \<not> thumb_at (drop i s)) \<Longrightarrow> replace_thumbnail s = s"
proof (induction s)
  case Nil
  then show ?case by simp
next
  case (Cons c cs)
  have "\<not> thumb_at (c # cs)" using Cons.prems [rule_format, of 0] by simp
  moreover have "\<forall>i \<le> length cs. \<not> thumb_at (drop i cs)"
  proof (intro allI impI)
    fix i assume "i \<le> length cs"
    then show "\<not> thumb_at (drop i cs)" using Cons.prems [rule_format, of "Suc i"] by simp
  qed
  ultimately show ?case using Cons.IH by simp
qed

lemma replace_thumbnail_leftmost:
  "i \<le> length s \<Longrightarrow> thumb_at (drop i s) \<Longrightarrow> (\<forall>j < i. \<not> thumb_at (drop j s)) \<Longrightarrow>
     replace_thumbnail s
       = take i s @ ''/s-l1600.'' @ drop 1 (dropWhile is_digit (drop 4 (drop i s)))"
proof (induction s arbitrary: i)
  case Nil
  then show ?case by (simp add: thumb_at_def)
next
  case (Cons c cs)
  show ?case
  proof (cases i)
    case 0
    with Cons.prems show ?thesis by simp
  next
    case (Suc k)
    with Cons.prems have k: "k \<le> length cs" and m: "thumb_at (drop k cs)" by simp_all
    have first: "\<not> thumb_at (c # cs)" using Cons.prems(3) [rule_format, of 0] Suc by simp
    have "\<forall>j < k. \<not> thumb_at (drop j cs)"
    proof (intro allI impI)
      fix j assume "j < k"
      then show "\<not> thumb_at (drop j cs)"
        using Cons.prems(3) [rule_format, of "Suc j"] Suc by simp
    qed
    from Cons.IH [OF k m this] first Suc show ?thesis by simp
  qed
qed

lemma leftmost_match:
  assumes "\<exists>i \<le> length s. thumb_at (drop i s)"
  shows "\<exists>i \<le> length s. thumb_at (drop i s) \<and> (\<forall>j < i. \<not> thumb_at (drop j s))"
proof -
  let ?P = "\<lambda>i. i \<le> length s \<and> thumb_at (drop i s)"
  from assms obtain i where "?P i" by blast
  then have "?P (LEAST i. ?P i)" by (rule LeastI)
  moreover have "\<forall>j < (LEAST i. ?P i). \<not> thumb_at (drop j s)"
  proof (intro allI impI notI)
    fix j assume j: "j < (LEAST i. ?P i)" and t: "thumb_at (drop j s)"
    from j \<open>?P (LEAST i. ?P i)\<close> have "j \<le> length s" by simp
    with t have "?P j" by simp
    then have "(LEAST i. ?P i) \<le> j" by (rule Least_le)
    with j show False by simp
  qed
  ultimately show ?thesis by blast
qed

lemma high_resolution_cases:
  "(if includes_str img ''/s-l'' \<and> includes_str img ''.jpg''
       \<and> (\<exists>i \<le> length img. thumb_at (drop i img))
    then \<exists>pre ds post. img = pre @ ''/s-l'' @ ds @ ''.'' @ post \<and> ds \<noteq> []
           \<and> (\<forall>c \<in> set ds. is_digit c)
           \<and> (\<forall>j < length pre. \<not> thumb_at (drop j img))
           \<and> high_resolution img = pre @ ''/s-l1600.'' @ post
    else high_resolution img = img)"
proof (cases "includes_str img ''/s-l'' \<and> includes_str img ''.jpg''")
  case False
  then show ?thesis by (auto simp: high_resolution_def)
next
  case True
  then have hr: "high_resolution img = replace_thumbnail img"
    by (simp add: high_resolution_def)
  show ?thesis
  proof (cases "\<exists>i \<le> length img. thumb_at (drop i img)")
    case False
    then have "replace_thumbnail img = img"
      by (intro replace_thumbnail_no_match) blast
    with False hr show ?thesis by auto
  next
    case ex: True
    from leftmost_match [OF ex] obtain i where i: "i \<le> length img"
      and t: "thumb_at (drop i img)" and l: "\<forall>j < i. \<not> thumb_at (drop j img)" by blast
    from thumb_at_decomp [OF t] obtain ds post where
      d: "drop i img = ''/s-l'' @ ds @ ''.'' @ post" and ne: "ds \<noteq> []"
      and dig: "\<forall>c \<in> set ds. is_digit c"
      and post: "post = drop 1 (dropWhile is_digit (drop 4 (drop i img)))" by blast
    have "img = take i img @ drop i img" by simp
    with d have img: "img = take i img @ ''/s-l'' @ ds @ ''.'' @ post" by simp
    have len: "length (take i img) = i" using i by simp
    have "high_resolution img = take i img @ ''/s-l1600.'' @ post"
      using replace_thumbnail_leftmost [OF i t l] hr post by simp
    with img ne dig l len have "\<exists>pre ds post. img = pre @ ''/s-l'' @ ds @ ''.'' @ post \<and> ds \<noteq> []
           \<and> (\<forall>c \<in> set ds. is_digit c)
           \<and> (\<forall>j < length pre. \<not> thumb_at (drop j img))
           \<and> high_resolution img = pre @ ''/s-l1600.'' @ post"
      by (intro exI [of _ "take i img"] exI [of _ ds] exI [of _ post]) simp
    with True ex show ?thesis by simp
  qed
qed

lemma replace_thumbnail_http:
  "startsWith img ''http'' \<Longrightarrow> startsWith (replace_thumbnail img) ''http''"
proof -
  assume "startsWith img ''http''"
  then obtain r where r: "img = ''http'' @ r" by (auto simp: startsWith_iff)
  have "replace_thumbnail (''http'' @ r) = ''http'' @ replace_thumbnail r"
    by (simp add: thumb_at_def)
  with r show ?thesis by (simp add: startsWith_iff)
qed

lemma high_resolution_http:
  "startsWith img ''http'' \<Longrightarrow> startsWith (high_resolution img) ''http''"
  by (simp add: high_resolution_def replace_thumbnail_http)

lemma format_images_list:
  "b_images apiData = Some imgs \<Longrightarrow>
     format_images apiData = map high_resolution (filter (\<lambda>img. startsWith img ''http'') imgs)"
proof -
  assume a: "b_images apiData = Some imgs"
  have "(\<lambda>img. img \<noteq> [] \<and> startsWith img ''http'') = (\<lambda>img. startsWith img ''http'')"
    by (rule ext) (auto simp: startsWith_iff)
  with a show ?thesis by (simp add: format_images_def)
qed

section \<open>The claims about the scraper\<close>

text \<open>
  Claim C2, as the code has it. For a response whose two status fields are 200 and whose
  body is present and not empty, the essential-field check fails, with the message for
  incomplete product data and the code \<open>API_ERROR\<close>, exactly when the title is
  missing or empty or the price value is missing or zero: one of the two is enough.
  Otherwise the normalizer produces a product.
\<close>

theorem essential_fields_check:
  assumes "original_status response = 200" and "pc_status response = 200"
    and "body response = Some apiData" and "keys_count apiData \<noteq> 0"
  shows "(process_response ebayUrl itemId response = Inl (ScraperError msg_incomplete API_ERROR)
            \<longleftrightarrow> (b_title apiData = None \<or> b_title apiData = Some []
                 \<or> b_price apiData = None
                 \<or> (\<exists>p. b_price apiData = Some p \<and> (p_value p = None \<or> p_value p = Some 0))))
         \<and> (process_response ebayUrl itemId response \<noteq> Inl (ScraperError msg_incomplete API_ERROR)
              \<longrightarrow> (\<exists>product. process_response ebayUrl itemId response = Inr product))"
  using assms
  by (auto simp: process_response_cases truthy_def truthy_num_def split: option.splits)

text \<open>A body without a price is rejected; the plain body, with title and price 20, passes.\<close>

theorem essential_fields_check_witness:
  "process_response example_url ''123456789'' (answer no_price_body)
     = Inl (ScraperError msg_incomplete API_ERROR)
   \<and> (\<exists>product. process_response example_url ''123456789'' (answer plain_body) = Inr product)"
proof -
  have k1: "keys_count no_price_body \<noteq> 0"
    by (simp add: no_price_body_def plain_body_def keys_count_def)
  have p1: "b_price no_price_body = None" by (simp add: no_price_body_def)
  have p2: "b_title plain_body = Some ''Summer Dress''"
    "b_price plain_body = Some \<lparr>p_value = Some 20, p_currency = Some ''USD''\<rparr>"
    by (simp_all add: plain_body_def)
  have a: "process_response example_url ''123456789'' (answer no_price_body)
     = Inl (ScraperError msg_incomplete API_ERROR)"
    using essential_fields_check [of "answer no_price_body" no_price_body example_url "''123456789''"] k1 p1
    by (simp add: answer_def)
  have b: "\<exists>product. process_response example_url ''123456789'' (answer plain_body) = Inr product"
    using essential_fields_check [of "answer plain_body" plain_body example_url "''123456789''"]
      plain_body_facts(1) p2
    by (simp add: answer_def)
  from a b show ?thesis ..
qed

text \<open>
  The claim C2 as written fails: a body with a title and the explicit price value 0 does
  not pass the check, and the scraper returns the failure instead of a product; a body
  with a title and no price fails too, although not both fields are absent.
\<close>

theorem zero_price_counterexample:
  "b_title zero_price_body = Some ''Summer Dress''
   \<and> b_price zero_price_body = Some \<lparr>p_value = Some 0, p_currency = Some ''USD''\<rparr>
   \<and> process_response example_url ''123456789'' (answer zero_price_body)
       = Inl (ScraperError msg_incomplete API_ERROR)
   \<and> fst (scrapeEbayProduct (respond_with zero_price_body) example_url (Some ''key''))
       = \<lparr>success = False, data = None, error = Some msg_incomplete\<rparr>
   \<and> b_title no_price_body = Some ''Summer Dress''
   \<and> process_response example_url ''123456789'' (answer no_price_body)
       = Inl (ScraperError msg_incomplete API_ERROR)"
proof -
  have t: "b_title zero_price_body = Some ''Summer Dress''"
    "b_price zero_price_body = Some \<lparr>p_value = Some 0, p_currency = Some ''USD''\<rparr>"
    "b_title no_price_body = Some ''Summer Dress''"
    "b_price no_price_body = None"
    by (simp_all add: zero_price_body_def no_price_body_def plain_body_def)
  have k: "keys_count zero_price_body \<noteq> 0" "keys_count no_price_body \<noteq> 0"
    by (simp_all add: zero_price_body_def no_price_body_def plain_body_def keys_count_def)
  have z: "process_response example_url ''123456789'' (answer zero_price_body)
       = Inl (ScraperError msg_incomplete API_ERROR)"
    by (rule process_response_incomplete [OF k(1)]) (simp add: t truthy_num_def)
  have n: "process_response example_url ''123456789'' (answer no_price_body)
       = Inl (ScraperError msg_incomplete API_ERROR)"
    by (rule process_response_incomplete [OF k(2)]) (simp add: t truthy_num_def)
  have s: "fst (scrapeEbayProduct (respond_with zero_price_body) example_url (Some ''key''))
       = \<lparr>success = False, data = None, error = Some msg_incomplete\<rparr>"
    by (simp add: scrape_respond_with [OF example_url_valid] z catch_error_def)
  from t z n s show ?thesis by simp
qed

text \<open>
  Claim C3. For every environment, URL and key the returned object is one of the two
  tagged shapes: success with the product and no error, when the \<^verbatim>\<open>try\<close> block
  returned, or failure with an error string and no data, when it threw. Every throw of
  the \<^verbatim>\<open>try\<close> block is turned into the failure object by the \<^verbatim>\<open>catch\<close> block, so the
  function always returns.
\<close>

theorem result_is_tagged:
  "(\<exists>product. fst (scrapeEbayProduct env ebayUrl apiKey)
        = \<lparr>success = True, data = Some product, error = None\<rparr>
      \<and> (\<exists>requests. scrape_try env ebayUrl apiKey = (Inr product, requests)))
   \<or> (\<exists>message. fst (scrapeEbayProduct env ebayUrl apiKey)
        = \<lparr>success = False, data = None, error = Some message\<rparr>
      \<and> (\<exists>e requests. scrape_try env ebayUrl apiKey = (Inl e, requests)))"
proof (cases "scrape_try env ebayUrl apiKey")
  case (Pair r requests)
  show ?thesis
  proof (cases r)
    case (Inl e)
    with Pair catch_error_shape [of e] show ?thesis
      by (auto simp: scrapeEbayProduct_def)
  next
    case (Inr product)
    with Pair show ?thesis by (simp add: scrapeEbayProduct_def)
  qed
qed

text \<open>A successful call and a failed one.\<close>

theorem result_is_tagged_witness:
  "success (fst (scrapeEbayProduct (respond_with example_body) example_url (Some ''key'')))
   \<and> error (fst (scrapeEbayProduct (respond_with example_body) example_url (Some ''key''))) = None
   \<and> \<not> success (fst (scrapeEbayProduct (respond_with zero_price_body) example_url (Some ''key'')))
   \<and> data (fst (scrapeEbayProduct (respond_with zero_price_body) example_url (Some ''key''))) = None"
proof -
  have a: "success (fst (scrapeEbayProduct (respond_with example_body) example_url (Some ''key'')))"
    by (simp add: scrape_example_body)
  have k: "keys_count zero_price_body \<noteq> 0"
    by (simp add: zero_price_body_def plain_body_def keys_count_def)
  have "process_response example_url ''123456789'' (answer zero_price_body)
       = Inl (ScraperError msg_incomplete API_ERROR)"
    by (rule process_response_incomplete [OF k])
      (simp add: zero_price_body_def truthy_num_def)
  then have b: "\<not> success (fst (scrapeEbayProduct (respond_with zero_price_body) example_url (Some ''key'')))"
    by (simp add: scrape_respond_with [OF example_url_valid] catch_error_def)
  from result_is_tagged [of "respond_with example_body" example_url "Some ''key''"] a
  have c: "error (fst (scrapeEbayProduct (respond_with example_body) example_url (Some ''key''))) = None"
    by auto
  from result_is_tagged [of "respond_with zero_price_body" example_url "Some ''key''"] b
  have d: "data (fst (scrapeEbayProduct (respond_with zero_price_body) example_url (Some ''key''))) = None"
    by auto
  from a b c d show ?thesis by simp
qed

text \<open>
  Claim C4. For a URL that passes the two URL checks, when the key argument is null or
  empty and the environment variable is unset or empty, the \<^verbatim>\<open>try\<close> block throws the
  \<open>API_KEY_MISSING\<close> error, the result is the failure with its message, and no
  request is sent.
\<close>

theorem missing_key_no_request:
  assumes "includes_str ebayUrl ''ebay.''" and "extractItemId ebayUrl \<noteq> None"
    and "apiKey = None \<or> apiKey = Some []"
    and "RAPIDAPI_KEY env = None \<or> RAPIDAPI_KEY env = Some []"
  shows "scrape_try env ebayUrl apiKey = (Inl (ScraperError msg_key_missing API_KEY_MISSING), [])
         \<and> scrapeEbayProduct env ebayUrl apiKey
             = (\<lparr>success = False, data = None, error = Some msg_key_missing\<rparr>, [])"
proof -
  from assms(2) obtain itemId where "extractItemId ebayUrl = Some itemId" by auto
  with assms(1,3,4)
  have "scrape_try env ebayUrl apiKey = (Inl (ScraperError msg_key_missing API_KEY_MISSING), [])"
    by (auto simp: scrape_try_def truthy_def createScraperError_def Let_def)
  then show ?thesis by (simp add: scrapeEbayProduct_def catch_error_def)
qed

text \<open>The example URL with no key and with the empty key, the environment variable unset.\<close>

theorem missing_key_no_request_witness:
  "includes_str example_url ''ebay.'' \<and> extractItemId example_url = Some ''123456789''
   \<and> RAPIDAPI_KEY (respond_with example_body) = None
   \<and> scrapeEbayProduct (respond_with example_body) example_url None
       = (\<lparr>success = False, data = None, error = Some msg_key_missing\<rparr>, [])
   \<and> scrapeEbayProduct (respond_with example_body) example_url (Some [])
       = (\<lparr>success = False, data = None, error = Some msg_key_missing\<rparr>, [])"
proof -
  note a = example_url_valid(1) and b = example_url_valid(2)
  have c: "RAPIDAPI_KEY (respond_with example_body) = None" by (simp add: respond_with_def)
  from b have b': "extractItemId example_url \<noteq> None" by simp
  show ?thesis
    using missing_key_no_request [OF a b' _ disjI1 [OF c], of None]
      missing_key_no_request [OF a b' _ disjI1 [OF c], of "Some []"] a b c
    by simp
qed

text \<open>
  Claim C5. For every string that does not contain \<^verbatim>\<open>ebay.\<close>, or in which no position
  holds \<^verbatim>\<open>/itm/\<close> (in any letter case) followed by a digit, the \<^verbatim>\<open>try\<close> block throws
  an \<open>INVALID_URL\<close> error and the result is the failure with its message; no
  request is sent. By \<open>extractItemId_None_iff\<close> the second condition says that
  \<^const>\<open>extractItemId\<close> finds no item identifier.
\<close>

theorem invalid_url_failure:
  assumes "\<not> includes_str ebayUrl ''ebay.'' \<or> (\<forall>i \<le> length ebayUrl. \<not> itm_at (drop i ebayUrl))"
  shows "\<exists>message. scrape_try env ebayUrl apiKey = (Inl (ScraperError message INVALID_URL), [])
           \<and> scrapeEbayProduct env ebayUrl apiKey
               = (\<lparr>success = False, data = None, error = Some message\<rparr>, [])"
proof (cases "includes_str ebayUrl ''ebay.''")
  case False
  then have "scrape_try env ebayUrl apiKey = (Inl (ScraperError msg_invalid_url INVALID_URL), [])"
    by (simp add: scrape_try_def createScraperError_def)
  then show ?thesis by (simp add: scrapeEbayProduct_def catch_error_def)
next
  case True
  with assms have "extractItemId ebayUrl = None" by (simp add: extractItemId_None_iff)
  with True
  have "scrape_try env ebayUrl apiKey = (Inl (ScraperError msg_no_item_id INVALID_URL), [])"
    by (simp add: scrape_try_def createScraperError_def)
  then show ?thesis by (simp add: scrapeEbayProduct_def catch_error_def)
qed

text \<open>
  A URL without the eBay marker fails although it contains \<^verbatim>\<open>/itm/123\<close>; an eBay URL
  without an item identifier fails with the second message.
\<close>

theorem invalid_url_failure_witness:
  "\<not> includes_str ''https://example.com/itm/123'' ''ebay.''
   \<and> extractItemId ''https://example.com/itm/123'' = Some ''123''
   \<and> scrapeEbayProduct (respond_with example_body) ''https://example.com/itm/123'' (Some ''key'')
       = (\<lparr>success = False, data = None, error = Some msg_invalid_url\<rparr>, [])
   \<and> includes_str ''https://www.ebay.com/usr/shop'' ''ebay.''
   \<and> scrapeEbayProduct (respond_with example_body) ''https://www.ebay.com/usr/shop'' (Some ''key'')
       = (\<lparr>success = False, data = None, error = Some msg_no_item_id\<rparr>, [])"
proof -
  let ?u = "''https://example.com/itm/123''" and ?w = "''https://www.ebay.com/usr/shop''"
  let ?env = "respond_with example_body"
  have a: "\<not> includes_str ?u ''ebay.''" by code_simp
  have b: "extractItemId ?u = Some ''123''" by code_simp
  have c: "includes_str ?w ''ebay.''" by code_simp
  have "extractItemId ?w = None" by code_simp
  then have d: "\<forall>i \<le> length ?w. \<not> itm_at (drop i ?w)"
    by (simp only: extractItemId_None_iff)
  from invalid_url_failure [OF disjI1 [OF a], of ?env "Some ''key''"]
  obtain m where m: "scrape_try ?env ?u (Some ''key'') = (Inl (ScraperError m INVALID_URL), [])"
    and rm: "scrapeEbayProduct ?env ?u (Some ''key'')
      = (\<lparr>success = False, data = None, error = Some m\<rparr>, [])" by blast
  from invalid_url_failure [OF disjI2 [OF d], of ?env "Some ''key''"]
  obtain n where n: "scrape_try ?env ?w (Some ''key'') = (Inl (ScraperError n INVALID_URL), [])"
    and rn: "scrapeEbayProduct ?env ?w (Some ''key'')
      = (\<lparr>success = False, data = None, error = Some n\<rparr>, [])" by blast
  have "scrape_try ?env ?u (Some ''key'') = (Inl (ScraperError msg_invalid_url INVALID_URL), [])"
    using a by (simp add: scrape_try_def createScraperError_def)
  with m have m': "m = msg_invalid_url" by simp
  have "scrape_try ?env ?w (Some ''key'') = (Inl (ScraperError msg_no_item_id INVALID_URL), [])"
    using c \<open>extractItemId ?w = None\<close> by (simp add: scrape_try_def createScraperError_def)
  with n have n': "n = msg_no_item_id" by simp
  from a b c rm rn m' n' show ?thesis by simp
qed

text \<open>
  Claim C6, as the code has it. When the validated body has an image list, the images of
  the product are the entries that start with \<^verbatim>\<open>http\<close>, in order, each passed through
  \<^const>\<open>high_resolution\<close>; all of them still start with \<^verbatim>\<open>http\<close>. An entry is
  rewritten exactly when it contains \<^verbatim>\<open>/s-l\<close> and contains \<^verbatim>\<open>.jpg\<close>, wherever the two
  stand, and has an occurrence of \<^verbatim>\<open>/s-l\<close>, digits and a dot: then the digits of the
  leftmost occurrence become 1600. Every other entry is unchanged. The entry
  \<^verbatim>\<open>https://i.ebayimg.com/images/g/abc/s-l500.jpg\<close> becomes the same URL with
  \<^verbatim>\<open>s-l1600.jpg\<close>.
\<close>

theorem images_filtered_and_rewritten:
  assumes "process_response ebayUrl itemId response = Inr product"
    and "body response = Some apiData" and "b_images apiData = Some imgs"
  shows "sp_images product = map high_resolution (filter (\<lambda>img. startsWith img ''http'') imgs)
         \<and> (\<forall>img \<in> set (sp_images product). startsWith img ''http'')
         \<and> (\<forall>img.
              if includes_str img ''/s-l'' \<and> includes_str img ''.jpg''
                 \<and> (\<exists>i \<le> length img. thumb_at (drop i img))
              then \<exists>pre ds post. img = pre @ ''/s-l'' @ ds @ ''.'' @ post \<and> ds \<noteq> []
                     \<and> (\<forall>c \<in> set ds. is_digit c)
                     \<and> (\<forall>j < length pre. \<not> thumb_at (drop j img))
                     \<and> high_resolution img = pre @ ''/s-l1600.'' @ post
              else high_resolution img = img)
         \<and> high_resolution ''https://i.ebayimg.com/images/g/abc/s-l500.jpg''
             = ''https://i.ebayimg.com/images/g/abc/s-l1600.jpg''"
proof -
  from process_response_Inr [OF assms(1)] assms(2)
  have "product = productData ebayUrl itemId apiData" by auto
  then have "sp_images product = format_images apiData"
    by (simp add: productData_def Let_def)
  with assms(3) have a: "sp_images product
      = map high_resolution (filter (\<lambda>img. startsWith img ''http'') imgs)"
    by (simp add: format_images_list)
  have b: "\<forall>img \<in> set (sp_images product). startsWith img ''http''"
    unfolding a by (auto simp: high_resolution_http)
  have c: "high_resolution ''https://i.ebayimg.com/images/g/abc/s-l500.jpg''
             = ''https://i.ebayimg.com/images/g/abc/s-l1600.jpg''"
    by code_simp
  from a b c high_resolution_cases show ?thesis by blast
qed

text \<open>The plain body, whose image list holds one thumbnail URL.\<close>

theorem images_filtered_and_rewritten_witness:
  "process_response example_url ''123456789'' (answer plain_body)
     = Inr (productData example_url ''123456789'' plain_body)
   \<and> b_images plain_body = Some [''https://i.ebayimg.com/images/g/abc/s-l500.jpg'']
   \<and> sp_images (productData example_url ''123456789'' plain_body)
       = [''https://i.ebayimg.com/images/g/abc/s-l1600.jpg'']"
proof -
  note p = process_response_ok [OF plain_body_facts, of example_url "''123456789''"]
  have b: "body (answer plain_body) = Some plain_body" by (simp add: answer_def)
  have i: "b_images plain_body = Some [''https://i.ebayimg.com/images/g/abc/s-l500.jpg'']"
    by (simp add: plain_body_def)
  have s: "startsWith ''https://i.ebayimg.com/images/g/abc/s-l500.jpg'' ''http''" by simp
  from images_filtered_and_rewritten [OF p b i] s p i show ?thesis by simp
qed

text \<open>
  The claim C6 as written fails: in \<^verbatim>\<open>http://h/x.jpg/s-l500.png\<close> no segment
  \<^verbatim>\<open>/s-l<digits>.\<close> is followed by \<^verbatim>\<open>.jpg\<close>, yet the entry is rewritten. (The
  thumbnail URL of the claim does match the pattern.)
\<close>

theorem thumbnail_pattern_counterexample:
  "spec_thumbnail_pattern ''https://i.ebayimg.com/images/g/abc/s-l500.jpg''
   \<and> startsWith ''http://h/x.jpg/s-l500.png'' ''http''
   \<and> \<not> spec_thumbnail_pattern ''http://h/x.jpg/s-l500.png''
   \<and> high_resolution ''http://h/x.jpg/s-l500.png'' = ''http://h/x.jpg/s-l1600.png''
   \<and> format_images (plain_body\<lparr>b_images := Some [''http://h/x.jpg/s-l500.png'']\<rparr>)
       = [''http://h/x.jpg/s-l1600.png'']"
proof -
  have a: "startsWith ''http://h/x.jpg/s-l500.png'' ''http''" by simp
  have b: "\<not> spec_thumbnail_pattern ''http://h/x.jpg/s-l500.png''" by code_simp
  have p: "spec_thumbnail_pattern ''https://i.ebayimg.com/images/g/abc/s-l500.jpg''"
    by code_simp
  have c: "high_resolution ''http://h/x.jpg/s-l500.png'' = ''http://h/x.jpg/s-l1600.png''"
    by code_simp
  have d: "format_images (plain_body\<lparr>b_images := Some [''http://h/x.jpg/s-l500.png'']\<rparr>)
       = [high_resolution ''http://h/x.jpg/s-l500.png'']"
    by (simp add: format_images_def)
  from p a b c d show ?thesis by simp
qed

text \<open>
  Claim C7 at a body without an image list whose main image is the relative path
  \<^verbatim>\<open>/images/a.jpg\<close>: the scraper succeeds and the images of the product are that one
  entry, which does not start with \<^verbatim>\<open>http\<close>. The fallback copies the main image
  without the test that the image list goes through. With the main image
  \<^verbatim>\<open>https://x/a.jpg\<close> the images are that URL.
\<close>

theorem main_image_not_filtered:
  "b_images relative_image_body = None
   \<and> b_mainImage relative_image_body = Some ''/images/a.jpg''
   \<and> \<not> startsWith ''/images/a.jpg'' ''http''
   \<and> fst (scrapeEbayProduct (respond_with relative_image_body) example_url (Some ''key''))
       = \<lparr>success = True,
          data = Some (productData example_url ''123456789'' relative_image_body),
          error = None\<rparr>
   \<and> sp_images (productData example_url ''123456789'' relative_image_body) = [''/images/a.jpg'']
   \<and> sp_images (productData example_url ''123456789'' main_image_body) = [''https://x/a.jpg'']"
proof -
  have f: "keys_count relative_image_body \<noteq> 0" "truthy (b_title relative_image_body)"
    "truthy_num (case b_price relative_image_body of None \<Rightarrow> None | Some p \<Rightarrow> p_value p)"
    by (simp_all add: relative_image_body_def plain_body_def keys_count_def truthy_def
        truthy_num_def)
  have a: "b_images relative_image_body = None"
    "b_mainImage relative_image_body = Some ''/images/a.jpg''"
    by (simp_all add: relative_image_body_def)
  have b: "\<not> startsWith ''/images/a.jpg'' ''http''" by simp
  have c: "fst (scrapeEbayProduct (respond_with relative_image_body) example_url (Some ''key''))
       = \<lparr>success = True,
          data = Some (productData example_url ''123456789'' relative_image_body),
          error = None\<rparr>"
    by (simp add: scrape_respond_with [OF example_url_valid] process_response_ok [OF f])
  have d: "sp_images (productData example_url ''123456789'' relative_image_body)
      = [''/images/a.jpg'']"
    by (simp add: productData_def Let_def format_images_def relative_image_body_def truthy_def)
  have e: "sp_images (productData example_url ''123456789'' main_image_body)
      = [''https://x/a.jpg'']"
    by (simp add: productData_def Let_def format_images_def main_image_body_def truthy_def)
  from a b c d e show ?thesis by simp
qed

text \<open>
  Claim C10. Every variant generated by the variant expander has no price, the empty item
  identifier and is available; and in every product that the scraper returns, the price
  of every variant is the price of the product.
\<close>

theorem variant_price_is_base_price:
  "(\<forall>v \<in> set (fr_variants (formatEbayVariants opts)).
       pv_price v = None \<and> pv_itemId v = [] \<and> pv_available v)
   \<and> (\<forall>product. data (fst (scrapeEbayProduct env ebayUrl apiKey)) = Some product \<longrightarrow>
         (\<forall>v \<in> set (sp_variants product). pv_price v = Some (sp_price product)))"
proof -
  have a: "\<forall>v \<in> set (fr_variants (formatEbayVariants opts)).
       pv_price v = None \<and> pv_itemId v = [] \<and> pv_available v"
  proof
    fix v assume "v \<in> set (fr_variants (formatEbayVariants opts))"
    from variant_options_in_combos [OF this] have "v = mk_variant (pv_options v)" by simp
    then have "pv_price v = pv_price (mk_variant (pv_options v))"
      "pv_itemId v = pv_itemId (mk_variant (pv_options v))"
      "pv_available v = pv_available (mk_variant (pv_options v))" by simp_all
    then show "pv_price v = None \<and> pv_itemId v = [] \<and> pv_available v"
      by (simp add: mk_variant_def)
  qed
  have b: "\<forall>product. data (fst (scrapeEbayProduct env ebayUrl apiKey)) = Some product \<longrightarrow>
         (\<forall>v \<in> set (sp_variants product). pv_price v = Some (sp_price product))"
  proof (intro allI impI)
    fix product
    assume d: "data (fst (scrapeEbayProduct env ebayUrl apiKey)) = Some product"
    from scrape_success_product [OF d] obtain itemId apiData where
      "product = productData ebayUrl itemId apiData" by blast
    then show "\<forall>v \<in> set (sp_variants product). pv_price v = Some (sp_price product)"
      by (simp add: productData_variant_prices)
  qed
  from a b show ?thesis ..
qed

text \<open>The example body: the product price is 20 and so is the price of each of the four variants.\<close>

theorem variant_price_is_base_price_witness:
  "map_option sp_price
     (data (fst (scrapeEbayProduct (respond_with example_body) example_url (Some ''key''))))
     = Some 20
   \<and> map_option (map pv_price \<circ> sp_variants)
       (data (fst (scrapeEbayProduct (respond_with example_body) example_url (Some ''key''))))
     = Some [Some 20, Some 20, Some 20, Some 20]"
proof -
  let ?r = "fst (scrapeEbayProduct (respond_with example_body) example_url (Some ''key''))"
  let ?p = "productData example_url ''123456789'' example_body"
  have d: "data ?r = Some ?p" by (simp add: scrape_example_body)
  have b: "sp_price ?p = 20"
    by (simp add: productData_def Let_def example_body_def plain_body_def or_num_def)
  have "length (fr_variants (formatEbayVariants example_options)) = 4" by code_simp
  then have len: "length (sp_variants ?p) = 4"
    by (simp add: productData_def Let_def example_body_def)
  from variant_price_is_base_price [of example_options "respond_with example_body"
      example_url "Some ''key''"] d b
  have all: "\<forall>v \<in> set (sp_variants ?p). pv_price v = Some 20" by simp
  from len obtain a b c e where "sp_variants ?p = [a, b, c, e]"
    by (auto simp: length_Suc_conv numeral_eq_Suc)
  with all have "map pv_price (sp_variants ?p) = [Some 20, Some 20, Some 20, Some 20]"
    by simp
  with d b show ?thesis by simp
qed

end
